theory Spec2Isabelle
  imports Main "HOL-Library.Sublist"
begin

section \<open>The operator CLI: db:migrate, db:reset and db:seed\<close>

text \<open>
  The program is the Go file of the operator CLI (package main): the functions
  \<open>migrate\<close>, \<open>resetDB\<close>, \<open>seedDB\<close> and the three database branches of \<open>main\<close>.
  Everything the code does through \<open>database/sql\<close>, the file system and the log is an
  effect; the model makes it explicit. The answers of the outside world (does a driver
  exist, does a query fail, what does an insert return) are fields of an environment, so
  that every theorem holds for every behaviour of the two engines. What the program leaves
  behind is a \<open>world\<close>: the statements the destination holds durably, those of the open
  transaction, the log lines and the printed lines.
\<close>

subsection \<open>Go library functions used by the code\<close>

text \<open>\<open>strings.Contains(s, substr)\<close>: some suffix of \<open>s\<close> starts with \<open>substr\<close>.\<close>

fun Contains :: "string \<Rightarrow> string \<Rightarrow> bool" where
  "Contains [] substr = (substr = [])"
| "Contains (c # cs) substr = (prefix substr (c # cs) \<or> Contains cs substr)"

text \<open>
  \<open>strings.Split(s, sep)\<close> for a separator of one byte, which is how \<open>seedDB\<close> calls it:
  one fragment more than there are separators, the empty string giving one empty fragment.
\<close>

fun Split :: "string \<Rightarrow> char \<Rightarrow> string list" where
  "Split [] sep = [[]]"
| "Split (c # cs) sep =
     (if c = sep then [] # Split cs sep
      else (case Split cs sep of
              [] \<Rightarrow> [[c]]
            | x # xs \<Rightarrow> (c # x) # xs))"

text \<open>The verb \<open>%d\<close> of \<open>fmt.Sprintf\<close> on a non-negative integer: its decimal digits.\<close>

definition digit :: "nat \<Rightarrow> char" where
  "digit d = char_of (48 + d)"

function Itoa :: "nat \<Rightarrow> string" where
  "Itoa n = (if n < 10 then [digit n] else Itoa (n div 10) @ [digit (n mod 10)])"
  by pat_completeness auto
termination
  by (relation "measure (\<lambda>n. n)") auto

declare Itoa.simps [simp del]

text \<open>\<open>flag.Arg(i)\<close>: the i-th positional argument, the empty string when there is none.\<close>

definition Arg :: "string list \<Rightarrow> nat \<Rightarrow> string" where
  "Arg args i = (if i < length args then args ! i else [])"

subsection \<open>Data\<close>

text \<open>
  A value scanned from a source row. The code never looks inside one (it is an
  \<open>interface{}\<close> handed from \<open>rows.Scan\<close> to \<open>Exec\<close>), so three shapes are enough.
\<close>

datatype val = VNull | VInt int | VText string

text \<open>A statement executed on the written store, with the values bound to it.\<close>

type_synonym effect = "string \<times> val list"

text \<open>
  One constructor for each format string the code logs with (\<open>log.Printf\<close>,
  \<open>log.Fatalf\<close>), holding the arguments of the format.
\<close>

datatype log_line =
    FailedConnectSQLite string
  | FailedConnectPostgres string
  | FailedQueryTable string string
  | FailedColumnTypes string string
  | FailedBeginTx string
  | FailedScanRow string string
  | FailedPrepareInsert string string
  | FailedInsertValues string "val list"
  | SkippingRow string
  | FailedInsertRow string string
  | FailedCommitTx string
  | failed_open_database string
  | failed_begin_transaction string
  | failed_delete_rows string string
  | failed_reset_sequence string string
  | failed_commit_transaction string
  | failed_read_SQL_file string
  | failed_execute_SQL string

text \<open>The lines printed with \<open>fmt.Printf\<close>, \<open>fmt.Println\<close> and \<open>flag.Usage\<close>.\<close>

datatype out_line =
    MigratedTable string
  | MigrationCompleted
  | MissingSeedPath
  | MissingDatabasePath
  | SeedingCompleted
  | ResetCompleted
  | Usage

record world =
  durable :: "effect list"
  pending :: "effect list"
  logs :: "log_line list"
  out :: "out_line list"

text \<open>
  How a function ends: \<open>Fatal\<close> is \<open>log.Fatalf\<close>, which logs and calls \<open>os.Exit(1)\<close>
  (deferred calls do not run); \<open>Returned\<close> is a normal return. Inside a loop a third
  outcome is needed: \<open>Next\<close>, the loop ran to its end and the function goes on.
\<close>

datatype result = Fatal world | Returned world

datatype flow = Abort world | Return world | Next world

text \<open>The answers the environment gives while one source row is copied.\<close>

record row_script =
  scan :: "string + val list"
  prepare :: "string option"
  exec :: "string option"
  reopen :: "string option"

text \<open>The answers the environment gives while one table is copied.\<close>

record table_script =
  query :: "string option"
  columns :: "string + string list"
  begin_tx :: "string option"
  rows :: "row_script list"
  commit_tx :: "string option"

text \<open>
  What the engine makes of a statement that it accepts: an ordinary statement, or one
  that begins, commits or rolls back the engine's transaction itself (\<open>BEGIN\<close>,
  \<open>COMMIT\<close> or \<open>END\<close>, \<open>ROLLBACK\<close>). The statements of \<open>migrate\<close> and \<open>resetDB\<close> are
  \<open>INSERT\<close>, \<open>DELETE\<close> and \<open>UPDATE\<close> texts built by the code, always ordinary; the
  fragments of a seed script go to the engine as they are and can be of any kind.
\<close>

datatype control = Ordinary | Begins | Commits | RollsBack


text \<open>
  The environment of a run. \<open>drivers\<close> are the driver names registered with
  \<open>database/sql\<close> by the packages linked into the program, \<open>connector\<close> the answer of a
  registered driver to a data source name, \<open>files\<close> is \<open>ioutil.ReadFile\<close> (the error
  or the content of the file). \<open>source\<close> gives
  the script of each table of a migration. The SQLite store of reset and seed answers
  \<open>Begin\<close> from its durable content, and \<open>Exec\<close> and \<open>Commit\<close> from its durable content and
  what the open transaction has executed so far; \<open>sqlite_control\<close> is the kind of a
  statement that it accepts.
\<close>

record env =
  drivers :: "string list"
  connector :: "string \<Rightarrow> string \<Rightarrow> string option"
  files :: "string \<Rightarrow> string + string"
  source :: "string \<Rightarrow> table_script"
  sqlite_begin :: "effect list \<Rightarrow> string option"
  sqlite_exec :: "effect list \<Rightarrow> effect list \<Rightarrow> string \<Rightarrow> string option"
  sqlite_control :: "string \<Rightarrow> control"
  sqlite_commit :: "effect list \<Rightarrow> effect list \<Rightarrow> string option"

subsection \<open>Transactions and the log\<close>

definition logf :: "log_line \<Rightarrow> world \<Rightarrow> world" where
  "logf l w = w\<lparr>logs := logs w @ [l]\<rparr>"

definition printf :: "out_line \<Rightarrow> world \<Rightarrow> world" where
  "printf l w = w\<lparr>out := out w @ [l]\<rparr>"

text \<open>\<open>db.Begin()\<close>: a new transaction, which has executed nothing yet.\<close>

definition tx_Begin :: "world \<Rightarrow> world" where
  "tx_Begin w = w\<lparr>pending := []\<rparr>"

text \<open>A statement that succeeded inside the open transaction.\<close>

definition tx_Exec :: "effect \<Rightarrow> world \<Rightarrow> world" where
  "tx_Exec e w = w\<lparr>pending := pending w @ [e]\<rparr>"

text \<open>\<open>tx.Rollback()\<close>: what the transaction executed is discarded.\<close>

definition tx_Rollback :: "world \<Rightarrow> world" where
  "tx_Rollback w = w\<lparr>pending := []\<rparr>"

text \<open>\<open>tx.Commit()\<close>: what the transaction executed becomes durable.\<close>

definition tx_Commit :: "world \<Rightarrow> world" where
  "tx_Commit w = w\<lparr>durable := durable w @ pending w, pending := []\<rparr>"

text \<open>
  \<open>sql.Open(driverName, dataSourceName)\<close> of \<open>database/sql\<close>: an unknown driver name is
  an error, whose text quotes the name (the verb \<open>%q\<close>); a registered driver may still
  refuse the data source name. No connection is made here.
\<close>

definition unknown_driver :: "string \<Rightarrow> string" where
  "unknown_driver driverName =
     ''sql: unknown driver '' @ [CHR 0x22] @ driverName @ [CHR 0x22] @ '' (forgotten import?)''"

definition sql_Open :: "env \<Rightarrow> string \<Rightarrow> string \<Rightarrow> string option" where
  "sql_Open env driverName dataSourceName =
     (if driverName \<in> set (drivers env) then connector env driverName dataSourceName
      else Some (unknown_driver driverName))"

subsection \<open>migrate\<close>

definition migrate_tables :: "string list" where
  "migrate_tables =
     [''users'', ''indexer'', ''irc_network'', ''irc_channel'', ''client'', ''filter'',
      ''action'', ''notification'', ''filter_indexer'', ''release'',
      ''release_action_status'', ''feed'', ''api_key'']"

text \<open>
  The loop over the columns: \<open>n\<close> is \<open>len(columns)\<close>, \<open>i\<close> the index of the column at the
  head, and the pair holds \<open>colNames\<close> and \<open>colPlaceholders\<close>. The test
  \<open>i < len(columns)-1\<close> is on Go's signed integers.
\<close>

fun column_loop :: "nat \<Rightarrow> nat \<Rightarrow> string list \<Rightarrow> string \<times> string \<Rightarrow> string \<times> string" where
  "column_loop n i [] acc = acc"
| "column_loop n i (col # cols) (colNames, colPlaceholders) =
     (let colNames = colNames @ col;
          colPlaceholders = colPlaceholders @ ''$'' @ Itoa (i + 1)
      in if int i < int n - 1
         then column_loop n (i + 1) cols (colNames @ '', '', colPlaceholders @ '', '')
         else column_loop n (i + 1) cols (colNames, colPlaceholders))"

text \<open>\<open>fmt.Sprintf("INSERT INTO %s (%s) VALUES (%s)", table, colNames, colPlaceholders)\<close>\<close>

definition insert_text :: "string \<Rightarrow> string \<Rightarrow> string \<Rightarrow> string" where
  "insert_text table colNames colPlaceholders =
     ''INSERT INTO '' @ table @ '' ('' @ colNames @ '') VALUES ('' @ colPlaceholders @ '')''"

text \<open>The statement the code prepares for a table with the given columns.\<close>

definition build_insert :: "string \<Rightarrow> string list \<Rightarrow> string" where
  "build_insert table cols =
     (case column_loop (length cols) 0 cols ([], []) of
        (colNames, colPlaceholders) \<Rightarrow> insert_text table colNames colPlaceholders)"

text \<open>
  The loop \<open>for rows.Next()\<close>: scan the row, prepare the statement, execute it with the
  row's values. A failed insert whose message contains \<open>violates foreign key constraint\<close>
  logs two lines, rolls the transaction back and begins a new one; any other failure is
  fatal.
\<close>

fun copy_rows :: "string \<Rightarrow> string \<Rightarrow> row_script list \<Rightarrow> world \<Rightarrow> flow" where
  "copy_rows table stmt [] w = Next w"
| "copy_rows table stmt (r # rs) w =
     (case scan r of
        Inl e \<Rightarrow> Abort (logf (FailedScanRow table e) w)
      | Inr values \<Rightarrow>
          (case prepare r of
             Some e \<Rightarrow> Abort (logf (FailedPrepareInsert table e) w)
           | None \<Rightarrow>
               (case exec r of
                  None \<Rightarrow> copy_rows table stmt rs (tx_Exec (stmt, values) w)
                | Some e \<Rightarrow>
                    if Contains e ''violates foreign key constraint''
                    then
                      (let w1 = logf (FailedInsertValues table values) w;
                           w2 = logf (SkippingRow e) w1;
                           w3 = tx_Rollback w2
                       in case reopen r of
                            Some e' \<Rightarrow> Abort (logf (FailedBeginTx e') w3)
                          | None \<Rightarrow> copy_rows table stmt rs (tx_Begin w3))
                    else Abort (logf (FailedInsertRow table e) w))))"

text \<open>
  The body of the loop over the tables. The deferred rollback registered here runs only
  when \<open>migrate\<close> returns, on a transaction that is committed by then (\<open>sql.ErrTxDone\<close>,
  which the code ignores), so it changes nothing; the deferred \<open>Close\<close> calls of the three
  functions release connections and change no stored data either.
\<close>

definition migrate_table :: "env \<Rightarrow> string \<Rightarrow> world \<Rightarrow> flow" where
  "migrate_table env table w =
     (let ts = source env table in
      case query ts of
        Some e \<Rightarrow> Abort (logf (FailedQueryTable table e) w)
      | None \<Rightarrow>
          (case columns ts of
             Inl e \<Rightarrow> Abort (logf (FailedColumnTypes table e) w)
           | Inr cols \<Rightarrow>
               (case begin_tx ts of
                  Some e \<Rightarrow> Abort (logf (FailedBeginTx e) w)
                | None \<Rightarrow>
                    (case copy_rows table (build_insert table cols) (rows ts) (tx_Begin w) of
                       Abort w' \<Rightarrow> Abort w'
                     | Return w' \<Rightarrow> Return w'
                     | Next w' \<Rightarrow>
                         (case commit_tx ts of
                            Some e \<Rightarrow> Abort (logf (FailedCommitTx e) w')
                          | None \<Rightarrow> Next (printf (MigratedTable table) (tx_Commit w')))))))"

fun table_loop :: "env \<Rightarrow> string list \<Rightarrow> world \<Rightarrow> flow" where
  "table_loop env [] w = Next w"
| "table_loop env (table # tables) w =
     (case migrate_table env table w of
        Next w' \<Rightarrow> table_loop env tables w'
      | Abort w' \<Rightarrow> Abort w'
      | Return w' \<Rightarrow> Return w')"

definition migrate :: "env \<Rightarrow> string \<Rightarrow> string \<Rightarrow> world \<Rightarrow> result" where
  "migrate env sqliteDBPath postgresDBURL w =
     (case sql_Open env ''sqlite3'' sqliteDBPath of
        Some e \<Rightarrow> Fatal (logf (FailedConnectSQLite e) w)
      | None \<Rightarrow>
          (case sql_Open env ''postgres'' postgresDBURL of
             Some e \<Rightarrow> Fatal (logf (FailedConnectPostgres e) w)
           | None \<Rightarrow>
               (case table_loop env migrate_tables w of
                  Abort w' \<Rightarrow> Fatal w'
                | Return w' \<Rightarrow> Returned w'
                | Next w' \<Rightarrow> Returned (printf MigrationCompleted w'))))"

subsection \<open>resetDB\<close>

definition reset_tables :: "string list" where
  "reset_tables =
     [''action'', ''api_key'', ''client'', ''feed'', ''feed_cache'', ''filter'',
      ''filter_indexer'', ''indexer'', ''irc_channel'', ''irc_network'', ''notification'',
      ''release'', ''release_action_status'', ''users'']"

definition delete_text :: "string \<Rightarrow> string" where
  "delete_text table = ''DELETE FROM '' @ table"

definition sequence_text :: "string \<Rightarrow> string" where
  "sequence_text table =
     ''UPDATE sqlite_sequence SET seq = 0 WHERE name = '' @ [CHR 0x27] @ table @ [CHR 0x27]"

text \<open>
  \<open>tx.Exec(stmt)\<close> for a statement of \<open>resetDB\<close>: the error, or the world after the
  statement. The two texts are a \<open>DELETE\<close> and an \<open>UPDATE\<close> built by the code from the
  table names of its list, so the statement is an ordinary one and, when the store
  accepts it, joins what the open transaction has executed.
\<close>

definition sqlite_Exec :: "env \<Rightarrow> string \<Rightarrow> world \<Rightarrow> string + world" where
  "sqlite_Exec env stmt w =
     (case sqlite_exec env (durable w) (pending w) stmt of
        Some e \<Rightarrow> Inl e
      | None \<Rightarrow> Inr (tx_Exec (stmt, []) w))"

fun reset_loop :: "env \<Rightarrow> string list \<Rightarrow> world \<Rightarrow> flow" where
  "reset_loop env [] w = Next w"
| "reset_loop env (table # tables) w =
     (case sqlite_Exec env (delete_text table) w of
        Inl e \<Rightarrow> Return (tx_Rollback (logf (failed_delete_rows table e) w))
      | Inr w1 \<Rightarrow>
          (case sqlite_Exec env (sequence_text table) w1 of
             Inr w2 \<Rightarrow> reset_loop env tables w2
           | Inl e \<Rightarrow>
               if \<not> Contains e ''no such table''
               then Return (tx_Rollback (logf (failed_reset_sequence table e) w1))
               else reset_loop env tables w1))"

definition resetDB :: "env \<Rightarrow> string \<Rightarrow> world \<Rightarrow> result" where
  "resetDB env dbPath w =
     (case sql_Open env ''sqlite'' dbPath of
        Some e \<Rightarrow> Fatal (logf (failed_open_database e) w)
      | None \<Rightarrow>
          (case sqlite_begin env (durable w) of
             Some e \<Rightarrow> Fatal (logf (failed_begin_transaction e) w)
           | None \<Rightarrow>
               (case reset_loop env reset_tables (tx_Begin w) of
                  Abort w' \<Rightarrow> Fatal w'
                | Return w' \<Rightarrow> Returned w'
                | Next w' \<Rightarrow>
                    (case sqlite_commit env (durable w') (pending w') of
                       Some e \<Rightarrow> Fatal (logf (failed_commit_transaction e) w')
                     | None \<Rightarrow> Returned (tx_Commit w')))))"

subsection \<open>seedDB\<close>

text \<open>
  \<open>tx.Exec(cmd)\<close> for a fragment of the seed script. \<open>active\<close> says whether the
  engine still has the transaction of \<open>db.Begin()\<close> (or one begun by a fragment) open.
  An accepted fragment that commits makes durable what the transaction has executed and
  leaves the connection in autocommit mode, where every further ordinary statement is
  durable at once; one that rolls back discards what the transaction has executed; one
  that begins opens a transaction again. \<open>database/sql\<close> knows nothing of this and goes
  on using the same connection.
\<close>

definition fragment_Exec :: "env \<Rightarrow> string \<Rightarrow> bool \<Rightarrow> world \<Rightarrow> string + bool \<times> world" where
  "fragment_Exec env cmd active w =
     (case sqlite_exec env (durable w) (pending w) cmd of
        Some e \<Rightarrow> Inl e
      | None \<Rightarrow>
          (case sqlite_control env cmd of
             Ordinary \<Rightarrow>
               if active then Inr (True, tx_Exec (cmd, []) w)
               else Inr (False, w\<lparr>durable := durable w @ [(cmd, [])]\<rparr>)
           | Begins \<Rightarrow> Inr (True, tx_Exec (cmd, []) w)
           | Commits \<Rightarrow> Inr (False, tx_Commit (tx_Exec (cmd, []) w))
           | RollsBack \<Rightarrow> Inr (False, tx_Rollback w)))"

text \<open>The error of the engine for a \<open>COMMIT\<close> when no transaction is open.\<close>

definition no_transaction :: string where
  "no_transaction = ''cannot commit - no transaction is active''"

text \<open>
  The loop over the fragments, with the state of the engine's transaction. After a
  failure the code calls \<open>tx.Rollback()\<close> and drops its error: with no transaction open
  the rollback fails and changes nothing.
\<close>

fun seed_loop :: "env \<Rightarrow> string list \<Rightarrow> bool \<Rightarrow> world \<Rightarrow> bool \<times> flow" where
  "seed_loop env [] active w = (active, Next w)"
| "seed_loop env (cmd # sqlCommands) active w =
     (case fragment_Exec env cmd active w of
        Inl e \<Rightarrow>
          (let w1 = logf (failed_execute_SQL e) w
           in (active, Return (if active then tx_Rollback w1 else w1)))
      | Inr (active', w') \<Rightarrow> seed_loop env sqlCommands active' w')"

definition seedDB :: "env \<Rightarrow> string \<Rightarrow> string \<Rightarrow> world \<Rightarrow> result" where
  "seedDB env seedDBPath dbPath w =
     (case files env seedDBPath of
        Inl e \<Rightarrow> Fatal (logf (failed_read_SQL_file e) w)
      | Inr sqlFile \<Rightarrow>
          (case sql_Open env ''sqlite'' dbPath of
             Some e \<Rightarrow> Fatal (logf (failed_open_database e) w)
           | None \<Rightarrow>
               (case sqlite_begin env (durable w) of
                  Some e \<Rightarrow> Fatal (logf (failed_begin_transaction e) w)
                | None \<Rightarrow>
                    (case seed_loop env (Split sqlFile (CHR '';'')) True (tx_Begin w) of
                       (active, Abort w') \<Rightarrow> Fatal w'
                     | (active, Return w') \<Rightarrow> Returned w'
                     | (active, Next w') \<Rightarrow>
                         if active
                         then (case sqlite_commit env (durable w') (pending w') of
                                 Some e \<Rightarrow> Fatal (logf (failed_commit_transaction e) w')
                               | None \<Rightarrow> Returned (tx_Commit w'))
                         else Fatal (logf (failed_commit_transaction no_transaction) w')))))"


subsection \<open>main\<close>

text \<open>
  \<open>args\<close> are the arguments that \<open>flag.Parse\<close> leaves, the subcommand first. The
  process ends with an exit status and a world. The branches \<open>version\<close>,
  \<open>create-user\<close> and \<open>change-password\<close> use the network, the terminal and packages outside
  this file; they are outside the model.
\<close>

datatype outcome = Exited nat world | NotModelled

definition run :: "result \<Rightarrow> (world \<Rightarrow> outcome) \<Rightarrow> outcome" where
  "run r k = (case r of Fatal w \<Rightarrow> Exited 1 w | Returned w \<Rightarrow> k w)"

definition main :: "env \<Rightarrow> string list \<Rightarrow> world \<Rightarrow> outcome" where
  "main env args w =
     (let cmd = Arg args 0 in
      if cmd = ''db:migrate'' then
        (let sqliteDBPath = Arg args 1; postgresDBURL = Arg args 2 in
         if sqliteDBPath = [] \<or> postgresDBURL = [] then Exited 1 (printf Usage w)
         else run (migrate env sqliteDBPath postgresDBURL w) (\<lambda>w. Exited 0 w))
      else if cmd = ''db:seed'' then
        (let seedDBPath = Arg args 1 in
         if seedDBPath = [] then Exited 1 (printf Usage (printf MissingSeedPath w))
         else
           (let dbPath = Arg args 2 in
            if dbPath = [] then Exited 1 (printf Usage (printf MissingDatabasePath w))
            else run (seedDB env seedDBPath dbPath w)
                   (\<lambda>w. Exited 0 (printf SeedingCompleted w))))
      else if cmd = ''db:reset'' then
        (let seedDBPath = Arg args 1 in
         if seedDBPath = [] then Exited 1 (printf Usage (printf MissingSeedPath w))
         else
           (let dbPath = Arg args 2 in
            if dbPath = [] then Exited 1 (printf Usage (printf MissingDatabasePath w))
            else run (resetDB env dbPath w)
                   (\<lambda>w. run (seedDB env seedDBPath dbPath w)
                      (\<lambda>w. Exited 0 (printf ResetCompleted w)))))
      else if cmd \<in> {''version'', ''create-user'', ''change-password''} then NotModelled
      else if cmd \<noteq> ''help'' then Exited 1 (printf Usage w)
      else Exited 0 (printf Usage w))"

subsection \<open>Notions of the specification\<close>

text \<open>
  The text \<open><c1>, <c2>, ..., <cn>\<close> of the specification's Statement Builder: the
  items in their order, a comma and a space between two of them.
\<close>

fun comma_list :: "string list \<Rightarrow> string" where
  "comma_list [] = []"
| "comma_list [x] = x"
| "comma_list (x # y # ys) = x @ '', '' @ comma_list (y # ys)"

text \<open>The k-th positional placeholder of the destination engine: \<open>$k\<close>.\<close>

definition placeholder :: "nat \<Rightarrow> string" where
  "placeholder k = ''$'' @ Itoa k"

text \<open>
  What the answers of a row's script mean: its insert was refused with a foreign-key
  violation (the test the code makes on the error text); the values scanned from it; it
  was scanned, prepared and inserted without an error.
\<close>

definition fk_violation :: "row_script \<Rightarrow> bool" where
  "fk_violation r =
     (case exec r of None \<Rightarrow> False | Some e \<Rightarrow> Contains e ''violates foreign key constraint'')"

definition values_of :: "row_script \<Rightarrow> val list" where
  "values_of r = (case scan r of Inl e \<Rightarrow> [] | Inr values \<Rightarrow> values)"

definition inserted :: "row_script \<Rightarrow> bool" where
  "inserted r = (\<not> isl (scan r) \<and> prepare r = None \<and> exec r = None)"

text \<open>
  The code keeps no counter of skipped rows; its count is the number of lines
  \<open>Skipping row due to foreign key constraint violation\<close> in the log.
\<close>

definition skipped_rows :: "log_line list \<Rightarrow> nat" where
  "skipped_rows ls = length (filter (\<lambda>l. case l of SkippingRow e \<Rightarrow> True | _ \<Rightarrow> False) ls)"

text \<open>The rows of a table that come after its last foreign-key violation.\<close>

definition after_last_violation :: "row_script list \<Rightarrow> row_script list" where
  "after_last_violation rs = rev (takeWhile (\<lambda>r. \<not> fk_violation r) (rev rs))"

text \<open>
  The inserts of a table's rows after its last foreign-key violation, as the destination
  records them: the table's statement with the row's values.
\<close>

definition committed_rows :: "env \<Rightarrow> string \<Rightarrow> effect list" where
  "committed_rows env table =
     (case columns (source env table) of
        Inl e \<Rightarrow> []
      | Inr cols \<Rightarrow>
          map (\<lambda>r. (build_insert table cols, values_of r))
            (after_last_violation (rows (source env table))))"

text \<open>The world a function leaves behind, however it ends.\<close>

definition world_of :: "result \<Rightarrow> world" where
  "world_of r = (case r of Fatal w \<Rightarrow> w | Returned w \<Rightarrow> w)"

text \<open>A statement of reset or seed as the store records it: no values are bound.\<close>

definition statement :: "string \<Rightarrow> effect" where
  "statement q = (q, [])"

text \<open>The fragments of a script put together again, the separator between two of them.\<close>

fun join :: "char \<Rightarrow> string list \<Rightarrow> string" where
  "join sep [] = []"
| "join sep [x] = x"
| "join sep (x # y # ys) = x @ sep # join sep (y # ys)"

text \<open>
  What a reset that commits has executed: for every table its \<open>DELETE\<close>, followed by the
  reset of its sequence where that statement succeeded (\<open>kept\<close>).
\<close>

definition reset_statements :: "string set \<Rightarrow> string list \<Rightarrow> effect list" where
  "reset_statements kept tables =
     concat (map (\<lambda>table. statement (delete_text table) #
                    (if table \<in> kept then [statement (sequence_text table)] else [])) tables)"

text \<open>
  No fragment of the script commits or rolls back the transaction by itself: the
  transaction of \<open>seedDB\<close> stays the one in which every fragment is executed.
\<close>

definition keeps_transaction :: "env \<Rightarrow> string list \<Rightarrow> bool" where
  "keeps_transaction env cmds =
     (\<forall>q\<in>set cmds. sqlite_control env q \<noteq> Commits \<and> sqlite_control env q \<noteq> RollsBack)"


subsection \<open>Concrete runs\<close>

definition w0 :: world where
  "w0 = \<lparr>durable = [], pending = [], logs = [], out = []\<rparr>"

definition ok_row :: "val list \<Rightarrow> row_script" where
  "ok_row v = \<lparr>scan = Inr v, prepare = None, exec = None, reopen = None\<rparr>"

definition fk_error :: string where
  "fk_error = ''pq: insert or update on table filter_indexer violates foreign key constraint filter_indexer_filter_id_fkey''"

definition fk_row :: "val list \<Rightarrow> row_script" where
  "fk_row v = \<lparr>scan = Inr v, prepare = None, exec = Some fk_error, reopen = None\<rparr>"

definition bad_row :: "val list \<Rightarrow> row_script" where
  "bad_row v = \<lparr>scan = Inr v, prepare = None,
                exec = Some ''pq: value too long for type character varying(16)'',
                reopen = None\<rparr>"

definition empty_table :: table_script where
  "empty_table = \<lparr>query = None, columns = Inr [''id''], begin_tx = None, rows = [],
                   commit_tx = None\<rparr>"

text \<open>
  A source whose table \<open>filter_indexer\<close> has two rows, the second one pointing to a
  filter that the destination does not have; every other table is empty.
\<close>

definition two_row_source :: "string \<Rightarrow> table_script" where
  "two_row_source table =
     (if table = ''filter_indexer''
      then empty_table\<lparr>columns := Inr [''filter_id'', ''indexer_id''],
                       rows := [ok_row [VInt 1, VInt 1], fk_row [VInt 9, VInt 1]]\<rparr>
      else empty_table)"

text \<open>The same table with four rows, the second one violating the foreign key.\<close>

definition four_row_source :: "string \<Rightarrow> table_script" where
  "four_row_source table =
     (if table = ''filter_indexer''
      then empty_table\<lparr>columns := Inr [''filter_id'', ''indexer_id''],
                       rows := [ok_row [VInt 1, VInt 1], fk_row [VInt 9, VInt 1],
                                ok_row [VInt 2, VInt 1], ok_row [VInt 2, VInt 2]]\<rparr>
      else empty_table)"

text \<open>A first table whose second row is refused for another reason.\<close>

definition too_long_source :: "string \<Rightarrow> table_script" where
  "too_long_source table =
     (if table = ''users''
      then empty_table\<lparr>columns := Inr [''id'', ''username''],
                       rows := [ok_row [VInt 1, VText ''admin''],
                                bad_row [VInt 2, VText ''a name of more than sixteen bytes''],
                                ok_row [VInt 3, VText ''guest'']]\<rparr>
      else empty_table)"

text \<open>The kind of the statements that the concrete scripts below contain.\<close>

definition sql_control :: "string \<Rightarrow> control" where
  "sql_control q =
     (if q = ''COMMIT'' \<or> q = ''END'' then Commits
      else if q = ''ROLLBACK'' then RollsBack
      else if q = ''BEGIN'' then Begins
      else Ordinary)"

text \<open>
  An environment in which every driver the code asks for is registered and the SQLite
  store accepts every statement.
\<close>

definition willing_env :: "(string \<Rightarrow> table_script) \<Rightarrow> (string \<Rightarrow> string + string) \<Rightarrow> env" where
  "willing_env src fs =
     \<lparr>drivers = [''postgres'', ''sqlite'', ''sqlite3''], connector = (\<lambda>d n. None), files = fs,
      source = src, sqlite_begin = (\<lambda>d. None), sqlite_exec = (\<lambda>d p q. None),
      sqlite_control = sql_control, sqlite_commit = (\<lambda>d p. None)\<rparr>"

text \<open>The error of \<open>ioutil.ReadFile\<close> for a path at which there is no file.\<close>

definition no_such_file :: "string \<Rightarrow> string" where
  "no_such_file path = ''open '' @ path @ '': no such file or directory''"

definition no_files :: "string \<Rightarrow> string + string" where
  "no_files path = Inl (no_such_file path)"

text \<open>A source without the table \<open>release\<close>, the tenth of the migration.\<close>

definition no_release_source :: "string \<Rightarrow> table_script" where
  "no_release_source table =
     (if table = ''release'' then empty_table\<lparr>query := Some ''no such table: release''\<rparr>
      else empty_table)"

text \<open>No table has a row.\<close>

definition no_rows :: "string \<Rightarrow> table_script" where
  "no_rows table = empty_table"

text \<open>A seed script of two statements, each ended by a semicolon.\<close>

definition seed_script :: string where
  "seed_script = ''INSERT INTO client (id, name) VALUES (1, 2);INSERT INTO feed (id, name) VALUES (1, 3);''"

text \<open>A seed script whose only statement has a semicolon inside a string literal.\<close>

definition literal_script :: string where
  "literal_script = ''INSERT INTO client (id, name) VALUES (1, 'a;b')''"

text \<open>Its first fragment, which ends inside the literal.\<close>

definition literal_head :: string where
  "literal_head = ''INSERT INTO client (id, name) VALUES (1, 'a''"

text \<open>
  A seed script with a \<open>COMMIT\<close> of its own between two inserts, the second into a table
  that does not exist.
\<close>

definition commit_script :: string where
  "commit_script = ''INSERT INTO client (id, name) VALUES (1, 2);COMMIT;INSERT INTO nope (id) VALUES (1)''"

text \<open>A seed script that starts with a \<open>ROLLBACK\<close>, before the same two inserts.\<close>

definition rollback_script :: string where
  "rollback_script = ''ROLLBACK;INSERT INTO client (id, name) VALUES (1, 2);INSERT INTO nope (id) VALUES (1)''"

definition seed_files :: "string \<Rightarrow> string + string" where
  "seed_files path =
     (if path = ''/path/to/seed'' then Inr seed_script
      else if path = ''/path/to/literal'' then Inr literal_script
      else if path = ''/path/to/commit'' then Inr commit_script
      else if path = ''/path/to/rollback'' then Inr rollback_script
      else Inl (no_such_file path))"

text \<open>A store that refuses exactly one statement, with the given error.\<close>

definition refusing_env :: "string \<Rightarrow> string \<Rightarrow> env" where
  "refusing_env q e =
     (willing_env no_rows seed_files)
       \<lparr>sqlite_exec := (\<lambda>d p stmt. if stmt = q then Some e else None)\<rparr>"

text \<open>A store without the table \<open>sqlite_sequence\<close>: no table of it is AUTOINCREMENT.\<close>

definition no_sequence_env :: env where
  "no_sequence_env =
     (willing_env no_rows seed_files)
       \<lparr>sqlite_exec := (\<lambda>d p stmt. if prefix ''UPDATE sqlite_sequence'' stmt
                                    then Some ''no such table: sqlite_sequence'' else None)\<rparr>"

section \<open>Properties\<close>

subsection \<open>The statement builder\<close>

lemma comma_list_Cons: "xs \<noteq> [] \<Longrightarrow> comma_list (x # xs) = x @ '', '' @ comma_list xs"
  by (cases xs) simp_all

lemma column_loop_text:
  "n = i + length cols \<Longrightarrow>
   column_loop n i cols (a, b) =
     (a @ comma_list cols, b @ comma_list (map placeholder [Suc i ..< Suc (i + length cols)]))"
proof (induction cols arbitrary: i a b)
  case Nil
  then show ?case by simp
next
  case (Cons c cs)
  show ?case
  proof (cases "cs = []")
    case True
    with Cons.prems show ?thesis by (simp add: placeholder_def)
  next
    case False
    have n: "n = Suc i + length cs" using Cons.prems by simp
    have more: "int i < int n - 1" using False n by (cases cs) simp_all
    have step: "column_loop n i (c # cs) (a, b) =
        column_loop n (Suc i) cs (a @ c @ '', '', b @ placeholder (Suc i) @ '', '')"
      using more by (simp add: placeholder_def)
    have upt: "[Suc i ..< Suc (i + length (c # cs))] = Suc i # [Suc (Suc i) ..< Suc (Suc i + length cs)]"
      by (simp add: upt_rec)
    have ne: "map placeholder [Suc (Suc i) ..< Suc (Suc i + length cs)] \<noteq> []"
      using False by (cases cs) simp_all
    show ?thesis
      unfolding step Cons.IH [OF n] upt list.map comma_list_Cons [OF False] comma_list_Cons [OF ne]
      by simp
  qed
qed

text \<open>
  C7. The statement built for a table and its columns \<open>c1 .. cn\<close>, in the order the
  introspection gave them, is the text
  \<open>INSERT INTO <table> (<c1>, ..., <cn>) VALUES ($1, ..., $n)\<close>: the columns in their
  order and the placeholders \<open>$1\<close> to \<open>$n\<close>, both separated by a comma and a space. The
  builder is a function of the table name and the column list alone.
\<close>

theorem build_insert_text:
  "build_insert table cols =
     ''INSERT INTO '' @ table @ '' ('' @ comma_list cols @ '') VALUES (''
       @ comma_list (map placeholder [1 ..< Suc (length cols)]) @ '')''"
  using column_loop_text [of "length cols" 0 cols "[]" "[]"]
  by (simp add: build_insert_def insert_text_def)

subsection \<open>Copying a table\<close>

lemma after_last_violation_Cons:
  "after_last_violation (r # rs) =
     (if \<exists>x\<in>set rs. fk_violation x then after_last_violation rs
      else if fk_violation r then rs else r # rs)"
proof (cases "\<exists>x\<in>set rs. fk_violation x")
  case True
  then obtain x where "x \<in> set (rev rs)" "\<not> \<not> fk_violation x" by auto
  then have "takeWhile (\<lambda>r. \<not> fk_violation r) (rev rs @ [r]) = takeWhile (\<lambda>r. \<not> fk_violation r) (rev rs)"
    by (rule takeWhile_append1)
  with True show ?thesis by (simp add: after_last_violation_def)
next
  case False
  then have "takeWhile (\<lambda>r. \<not> fk_violation r) (rev rs @ [r]) = rev rs @ takeWhile (\<lambda>r. \<not> fk_violation r) [r]"
    by (intro takeWhile_append2) auto
  with False show ?thesis by (simp add: after_last_violation_def)
qed

lemma after_last_violation_Nil [simp]: "after_last_violation [] = []"
  by (simp add: after_last_violation_def)

lemma after_last_violation_none:
  "\<forall>x\<in>set rs. \<not> fk_violation x \<Longrightarrow> after_last_violation rs = rs"
proof -
  assume "\<forall>x\<in>set rs. \<not> fk_violation x"
  then have tw: "takeWhile (\<lambda>r. \<not> fk_violation r) (rev rs) = rev rs"
    by (intro takeWhile_eq_all_conv [THEN iffD2]) simp
  show ?thesis by (simp only: after_last_violation_def tw rev_rev_ident)
qed

lemma copy_rows_Next:
  "copy_rows table stmt rs w = Next w' \<Longrightarrow>
     pending w' = (if \<exists>r\<in>set rs. fk_violation r then [] else pending w)
                    @ map (\<lambda>r. (stmt, values_of r)) (after_last_violation rs)
     \<and> durable w' = durable w \<and> out w' = out w"
proof (induction rs arbitrary: w)
  case Nil
  then show ?case by simp
next
  case (Cons r rs)
  show ?case
  proof (cases "exec r")
    case None
    with Cons.prems obtain v where v: "scan r = Inr v" "prepare r = None"
      and rest: "copy_rows table stmt rs (tx_Exec (stmt, v) w) = Next w'"
      by (auto split: sum.splits option.splits)
    have nfk: "\<not> fk_violation r" using None by (simp add: fk_violation_def)
    show ?thesis
      using Cons.IH [OF rest] nfk v
      by (simp add: after_last_violation_Cons after_last_violation_none tx_Exec_def values_of_def)
  next
    case (Some e)
    with Cons.prems obtain v where v: "scan r = Inr v" "prepare r = None"
      and fk: "Contains e ''violates foreign key constraint''"
      and rest: "copy_rows table stmt rs
                   (tx_Begin (tx_Rollback (logf (SkippingRow e) (logf (FailedInsertValues table v) w)))) = Next w'"
      by (auto split: sum.splits option.splits if_splits simp: Let_def)
    have isfk: "fk_violation r" using Some fk by (simp add: fk_violation_def)
    show ?thesis
      using Cons.IH [OF rest] isfk
      by (simp add: after_last_violation_Cons after_last_violation_none tx_Begin_def tx_Rollback_def logf_def)
  qed
qed

lemma copy_rows_not_Return: "copy_rows table stmt rs w \<noteq> Return w'"
  by (induction rs arbitrary: w) (auto split: sum.splits option.splits simp: Let_def)

lemma migrate_table_not_Return: "migrate_table env table w \<noteq> Return w'"
  by (auto simp: migrate_table_def Let_def copy_rows_not_Return split: sum.splits option.splits flow.splits)

lemma migrate_table_Next:
  "migrate_table env table w = Next w' \<Longrightarrow>
     durable w' = durable w @ committed_rows env table \<and> pending w' = []
     \<and> out w' = out w @ [MigratedTable table]"
  by (auto simp: migrate_table_def Let_def committed_rows_def tx_Begin_def tx_Commit_def printf_def
           split: sum.splits option.splits flow.splits dest!: copy_rows_Next)

lemma table_loop_not_Return: "table_loop env tables w \<noteq> Return w'"
  by (induction tables arbitrary: w) (auto simp: migrate_table_not_Return split: flow.splits)

lemma table_loop_Next:
  "table_loop env tables w = Next w' \<Longrightarrow>
     durable w' = durable w @ concat (map (committed_rows env) tables)
     \<and> out w' = out w @ map MigratedTable tables"
proof (induction tables arbitrary: w)
  case Nil
  then show ?case by simp
next
  case (Cons t ts)
  from Cons.prems obtain w1 where 1: "migrate_table env t w = Next w1"
    and 2: "table_loop env ts w1 = Next w'"
    by (auto split: flow.splits)
  show ?case using migrate_table_Next [OF 1] Cons.IH [OF 2] by simp
qed

lemma migrate_Returned:
  "migrate env a b w = Returned w' \<Longrightarrow>
     durable w' = durable w @ concat (map (committed_rows env) migrate_tables)
     \<and> out w' = out w @ map MigratedTable migrate_tables @ [MigrationCompleted]"
  by (auto simp: migrate_def printf_def table_loop_not_Return split: option.splits flow.splits dest!: table_loop_Next)


lemma copy_rows_inserted:
  "\<forall>r\<in>set rs. inserted r \<Longrightarrow>
   copy_rows table stmt rs w = Next (w\<lparr>pending := pending w @ map (\<lambda>r. (stmt, values_of r)) rs\<rparr>)"
proof (induction rs arbitrary: w)
  case Nil
  then show ?case by simp
next
  case (Cons r rs)
  from Cons.prems obtain v where v: "scan r = Inr v" "prepare r = None" "exec r = None"
    by (cases "scan r") (auto simp: inserted_def)
  have rest: "\<forall>r\<in>set rs. inserted r" using Cons.prems by simp
  show ?case
    using v by (simp add: Cons.IH [OF rest] tx_Exec_def values_of_def)
qed

lemma copy_rows_append:
  "copy_rows table stmt (xs @ ys) w =
     (case copy_rows table stmt xs w of
        Next w1 \<Rightarrow> copy_rows table stmt ys w1
      | Abort w1 \<Rightarrow> Abort w1
      | Return w1 \<Rightarrow> Return w1)"
  by (induction xs arbitrary: w) (auto split: sum.splits option.splits simp: Let_def)

lemma copy_rows_violation:
  "scan r = Inr v \<Longrightarrow> prepare r = None \<Longrightarrow> exec r = Some e \<Longrightarrow>
   Contains e ''violates foreign key constraint'' \<Longrightarrow> reopen r = None \<Longrightarrow>
   copy_rows table stmt (r # rs) w =
     copy_rows table stmt rs
       (w\<lparr>pending := [], logs := logs w @ [FailedInsertValues table v, SkippingRow e]\<rparr>)"
  by (cases w) (simp add: Let_def logf_def tx_Rollback_def tx_Begin_def)

lemma copy_rows_Next_rows:
  "copy_rows table stmt rs w = Next w' \<Longrightarrow> \<forall>r\<in>set rs. inserted r \<or> fk_violation r"
proof (induction rs arbitrary: w)
  case Nil
  then show ?case by simp
next
  case (Cons r rs)
  show ?case
  proof (cases "exec r")
    case None
    with Cons.prems obtain v where v: "scan r = Inr v" "prepare r = None"
      and rest: "copy_rows table stmt rs (tx_Exec (stmt, v) w) = Next w'"
      by (auto split: sum.splits option.splits)
    show ?thesis using Cons.IH [OF rest] v None by (simp add: inserted_def)
  next
    case (Some e)
    with Cons.prems obtain v where v: "scan r = Inr v" "prepare r = None"
      and fk: "Contains e ''violates foreign key constraint''"
      and rest: "copy_rows table stmt rs
                   (tx_Begin (tx_Rollback (logf (SkippingRow e) (logf (FailedInsertValues table v) w)))) = Next w'"
      by (auto split: sum.splits option.splits if_splits simp: Let_def)
    show ?thesis using Cons.IH [OF rest] Some fk by (simp add: fk_violation_def)
  qed
qed

lemma after_last_violation_set:
  "r \<in> set (after_last_violation rs) \<Longrightarrow> r \<in> set rs \<and> \<not> fk_violation r"
  by (auto simp: after_last_violation_def dest: set_takeWhileD)

lemma migrate_table_Next_inserted:
  assumes "migrate_table env table w = Next w'"
  shows "\<forall>r\<in>set (after_last_violation (rows (source env table))). inserted r"
proof -
  from assms obtain stmt w1 w2 where
    "copy_rows table stmt (rows (source env table)) w1 = Next w2"
    by (auto simp: migrate_table_def Let_def split: sum.splits option.splits flow.splits)
  from copy_rows_Next_rows [OF this] show ?thesis
    by (auto dest: after_last_violation_set)
qed

lemma inserted_not_violation: "inserted r \<Longrightarrow> \<not> fk_violation r"
  by (simp add: inserted_def fk_violation_def)

lemma after_last_violation_split:
  assumes "fk_violation bad" and "\<forall>r\<in>set post. \<not> fk_violation r"
  shows "after_last_violation (pre @ bad # post) = post"
proof -
  have "takeWhile (\<lambda>r. \<not> fk_violation r) (rev post @ bad # rev pre) =
      takeWhile (\<lambda>r. \<not> fk_violation r) (rev post)"
    using assms(1) by (intro takeWhile_tail) simp
  also have "\<dots> = rev post"
    using assms(2) by (intro takeWhile_eq_all_conv [THEN iffD2]) simp
  finally show ?thesis by (simp add: after_last_violation_def)
qed

text \<open>
  C1, as amended. A table with N rows is copied; its k-th row (the rows before it being
  \<open>pre\<close>, those after it \<open>post\<close>) is refused with a foreign-key violation and every other
  row is inserted without an error. Then the copy of the table commits exactly the rows
  after the k-th one, N - k rows (N - 1 only when the first row is the one refused), and
  logs one line with the table's name and the refused values, followed by one line that
  the row is skipped. These N - k rows are the table's part of what a run that completes
  has made durable.
\<close>

theorem migrate_table_one_violation:
  assumes "query (source env table) = None"
    and "columns (source env table) = Inr cols"
    and "begin_tx (source env table) = None"
    and "commit_tx (source env table) = None"
    and "rows (source env table) = pre @ bad # post"
    and "\<forall>r\<in>set pre \<union> set post. inserted r"
    and "scan bad = Inr v" and "prepare bad = None" and "exec bad = Some e"
    and "Contains e ''violates foreign key constraint''"
    and "reopen bad = None"
  shows "migrate_table env table w =
           Next (w\<lparr>durable := durable w @ map (\<lambda>r. (build_insert table cols, values_of r)) post,
                   pending := [],
                   logs := logs w @ [FailedInsertValues table v, SkippingRow e],
                   out := out w @ [MigratedTable table]\<rparr>)
         \<and> length post = length (rows (source env table)) - (length pre + 1)
         \<and> committed_rows env table = map (\<lambda>r. (build_insert table cols, values_of r)) post
         \<and> (migrate env sqliteDBPath postgresDBURL wr = Returned wr' \<longrightarrow>
              durable wr' = durable wr @ concat (map (committed_rows env) migrate_tables))"
proof -
  let ?stmt = "build_insert table cols"
  have pre: "\<forall>r\<in>set pre. inserted r" and post: "\<forall>r\<in>set post. inserted r"
    using assms(6) by auto
  have "fk_violation bad"
    using assms(9,10) by (simp add: fk_violation_def)
  moreover have "\<forall>r\<in>set post. \<not> fk_violation r"
    using post by (simp add: inserted_not_violation)
  ultimately have "after_last_violation (rows (source env table)) = post"
    unfolding assms(5) by (rule after_last_violation_split)
  then have part: "committed_rows env table = map (\<lambda>r. (?stmt, values_of r)) post"
    using assms(2) by (simp add: committed_rows_def)
  let ?w1 = "(tx_Begin w)\<lparr>pending := pending (tx_Begin w) @ map (\<lambda>r. (?stmt, values_of r)) pre\<rparr>"
  let ?w2 = "?w1\<lparr>pending := [], logs := logs ?w1 @ [FailedInsertValues table v, SkippingRow e]\<rparr>"
  have "copy_rows table ?stmt (pre @ bad # post) (tx_Begin w) = copy_rows table ?stmt (bad # post) ?w1"
    by (simp add: copy_rows_append copy_rows_inserted [OF pre] del: copy_rows.simps)
  also have "\<dots> = copy_rows table ?stmt post ?w2"
    by (rule copy_rows_violation [OF assms(7-11)])
  also have "\<dots> = Next (?w2\<lparr>pending := pending ?w2 @ map (\<lambda>r. (?stmt, values_of r)) post\<rparr>)"
    by (rule copy_rows_inserted [OF post])
  also have "\<dots> = Next (w\<lparr>pending := map (\<lambda>r. (?stmt, values_of r)) post,
                           logs := logs w @ [FailedInsertValues table v, SkippingRow e]\<rparr>)"
    by (cases w) (simp add: tx_Begin_def)
  finally have loop: "copy_rows table ?stmt (rows (source env table)) (tx_Begin w) =
      Next (w\<lparr>pending := map (\<lambda>r. (?stmt, values_of r)) post,
              logs := logs w @ [FailedInsertValues table v, SkippingRow e]\<rparr>)"
    using assms(5) by simp
  have one: "migrate_table env table w =
           Next (w\<lparr>durable := durable w @ map (\<lambda>r. (?stmt, values_of r)) post,
                   pending := [],
                   logs := logs w @ [FailedInsertValues table v, SkippingRow e],
                   out := out w @ [MigratedTable table]\<rparr>)"
    using assms(1-5) loop
    by (cases w) (simp add: migrate_table_def Let_def tx_Commit_def printf_def)
  have len: "length post = length (rows (source env table)) - (length pre + 1)"
    using assms(5) by simp
  show ?thesis
    using one len part migrate_Returned [of env sqliteDBPath postgresDBURL wr wr']
    by blast
qed

text \<open>
  A run of the amended statement: four rows, the second one refused; the two rows after
  it are committed, the one before it is not.
\<close>

theorem migrate_table_one_violation_witness:
  "migrate_table (willing_env four_row_source no_files) ''filter_indexer'' w0 =
     Next \<lparr>durable =
             [(''INSERT INTO filter_indexer (filter_id, indexer_id) VALUES ($1, $2)'', [VInt 2, VInt 1]),
              (''INSERT INTO filter_indexer (filter_id, indexer_id) VALUES ($1, $2)'', [VInt 2, VInt 2])],
           pending = [],
           logs = [FailedInsertValues ''filter_indexer'' [VInt 9, VInt 1], SkippingRow fk_error],
           out = [MigratedTable ''filter_indexer'']\<rparr>
   \<and> length [ok_row [VInt 2, VInt 1], ok_row [VInt 2, VInt 2]] = 4 - (1 + 1)
   \<and> committed_rows (willing_env four_row_source no_files) ''filter_indexer'' =
       [(''INSERT INTO filter_indexer (filter_id, indexer_id) VALUES ($1, $2)'', [VInt 2, VInt 1]),
        (''INSERT INTO filter_indexer (filter_id, indexer_id) VALUES ($1, $2)'', [VInt 2, VInt 2])]
   \<and> durable \<lparr>durable =
             [(''INSERT INTO filter_indexer (filter_id, indexer_id) VALUES ($1, $2)'', [VInt 2, VInt 1]),
              (''INSERT INTO filter_indexer (filter_id, indexer_id) VALUES ($1, $2)'', [VInt 2, VInt 2])],
           pending = [],
           logs = [FailedInsertValues ''filter_indexer'' [VInt 9, VInt 1], SkippingRow fk_error],
           out = map MigratedTable migrate_tables @ [MigrationCompleted]\<rparr> =
       durable w0 @ concat (map (committed_rows (willing_env four_row_source no_files)) migrate_tables)"
proof -
  let ?env = "willing_env four_row_source no_files"
  let ?t = "''filter_indexer''"
  have 1: "query (source ?env ?t) = None" by code_simp
  have 2: "columns (source ?env ?t) = Inr [''filter_id'', ''indexer_id'']" by code_simp
  have 3: "begin_tx (source ?env ?t) = None" by code_simp
  have 4: "commit_tx (source ?env ?t) = None" by code_simp
  have 5: "rows (source ?env ?t) =
      [ok_row [VInt 1, VInt 1]] @ fk_row [VInt 9, VInt 1] # [ok_row [VInt 2, VInt 1], ok_row [VInt 2, VInt 2]]"
    by code_simp
  have 6: "\<forall>r\<in>set [ok_row [VInt 1, VInt 1]] \<union> set [ok_row [VInt 2, VInt 1], ok_row [VInt 2, VInt 2]]. inserted r"
    by (simp add: inserted_def ok_row_def)
  have 7: "scan (fk_row [VInt 9, VInt 1]) = Inr [VInt 9, VInt 1]" by code_simp
  have 8: "prepare (fk_row [VInt 9, VInt 1]) = None" by code_simp
  have 9: "exec (fk_row [VInt 9, VInt 1]) = Some fk_error" by code_simp
  have 10: "Contains fk_error ''violates foreign key constraint''" by code_simp
  have 11: "reopen (fk_row [VInt 9, VInt 1]) = None" by code_simp
  have stmt: "build_insert ?t [''filter_id'', ''indexer_id''] =
      ''INSERT INTO filter_indexer (filter_id, indexer_id) VALUES ($1, $2)''" by code_simp
  have len: "length (rows (source ?env ?t)) = 4" by code_simp
  let ?done = "\<lparr>durable =
             [(''INSERT INTO filter_indexer (filter_id, indexer_id) VALUES ($1, $2)'', [VInt 2, VInt 1]),
              (''INSERT INTO filter_indexer (filter_id, indexer_id) VALUES ($1, $2)'', [VInt 2, VInt 2])],
           pending = [],
           logs = [FailedInsertValues ''filter_indexer'' [VInt 9, VInt 1], SkippingRow fk_error],
           out = map MigratedTable migrate_tables @ [MigrationCompleted]\<rparr>"
  have run: "migrate ?env ''/config/autobrr.db'' ''postgres://localhost/autobrr'' w0 = Returned ?done"
    by code_simp
  note th = migrate_table_one_violation [OF 1 2 3 4 5 6 7 8 9 10 11,
      where w = w0 and wr = w0 and wr' = ?done and sqliteDBPath = "''/config/autobrr.db''"
        and postgresDBURL = "''postgres://localhost/autobrr''"]
  have a: "migrate_table ?env ?t w0 =
     Next \<lparr>durable =
             [(''INSERT INTO filter_indexer (filter_id, indexer_id) VALUES ($1, $2)'', [VInt 2, VInt 1]),
              (''INSERT INTO filter_indexer (filter_id, indexer_id) VALUES ($1, $2)'', [VInt 2, VInt 2])],
           pending = [],
           logs = [FailedInsertValues ''filter_indexer'' [VInt 9, VInt 1], SkippingRow fk_error],
           out = [MigratedTable ''filter_indexer'']\<rparr>
   \<and> length [ok_row [VInt 2, VInt 1], ok_row [VInt 2, VInt 2]] = 4 - (1 + 1)
   \<and> committed_rows ?env ?t =
       [(''INSERT INTO filter_indexer (filter_id, indexer_id) VALUES ($1, $2)'', [VInt 2, VInt 1]),
        (''INSERT INTO filter_indexer (filter_id, indexer_id) VALUES ($1, $2)'', [VInt 2, VInt 2])]"
    using th by (simp add: stmt len w0_def values_of_def ok_row_def)
  have b: "durable ?done = durable w0 @ concat (map (committed_rows ?env) migrate_tables)"
    using th [THEN conjunct2, THEN conjunct2, THEN conjunct2, THEN mp, OF run] .
  from a b show ?thesis by (simp only: simp_thms)
qed

text \<open>
  C1 as the specification states it fails. The table \<open>filter_indexer\<close> has N = 2 rows, the
  first is inserted without an error and the second violates a foreign key. The run
  completes and the destination holds no row at all, where N - 1 = 1 row was promised:
  the rollback for the second row has discarded the first.
\<close>

theorem one_violation_loses_earlier_rows:
  "rows (two_row_source ''filter_indexer'') = [ok_row [VInt 1, VInt 1], fk_row [VInt 9, VInt 1]]
   \<and> inserted (ok_row [VInt 1, VInt 1])
   \<and> fk_violation (fk_row [VInt 9, VInt 1])
   \<and> migrate (willing_env two_row_source no_files) ''/config/autobrr.db''
         ''postgres://localhost/autobrr'' w0 =
       Returned \<lparr>durable = [], pending = [],
         logs = [FailedInsertValues ''filter_indexer'' [VInt 9, VInt 1], SkippingRow fk_error],
         out = map MigratedTable migrate_tables @ [MigrationCompleted]\<rparr>"
  by code_simp

lemma table_loop_append:
  "table_loop env (xs @ ys) w =
     (case table_loop env xs w of
        Next w1 \<Rightarrow> table_loop env ys w1
      | Abort w1 \<Rightarrow> Abort w1
      | Return w1 \<Rightarrow> Return w1)"
  by (induction xs arbitrary: w) (auto split: flow.splits)

text \<open>
  C2. When a row's insert is refused with a foreign-key violation, the rollback drops
  everything the open transaction has inserted, that is every row of the table inserted
  since the transaction was begun or begun again; what is durable stays, and the copy goes
  on with the next row in a new, empty transaction. Consequently, when the copy of a table
  completes, the rows it has made durable are exactly the rows after the table's last
  foreign-key violation, each of them inserted without an error; and a run that completes
  has made durable exactly these rows, table after table.
\<close>

theorem commit_after_last_violation:
  "(scan r = Inr v \<and> prepare r = None \<and> exec r = Some e
      \<and> Contains e ''violates foreign key constraint'' \<and> reopen r = None \<longrightarrow>
    copy_rows table stmt (r # rs) w =
      copy_rows table stmt rs
        (w\<lparr>pending := [], logs := logs w @ [FailedInsertValues table v, SkippingRow e]\<rparr>))
   \<and> (migrate_table env table w = Next w' \<longrightarrow>
        durable w' = durable w @ committed_rows env table
        \<and> (\<forall>r\<in>set (after_last_violation (rows (source env table))). inserted r))
   \<and> (migrate env sqliteDBPath postgresDBURL w = Returned w' \<longrightarrow>
        durable w' = durable w @ concat (map (committed_rows env) migrate_tables))"
  using copy_rows_violation [of r v e table stmt rs w]
    migrate_table_Next [of env table w w']
    migrate_table_Next_inserted [of env table w w']
    migrate_Returned [of env sqliteDBPath postgresDBURL w w']
  by blast

lemma copy_rows_skipped:
  "copy_rows table stmt rs w = Next w' \<Longrightarrow>
     skipped_rows (logs w') = skipped_rows (logs w) + length (filter fk_violation rs)"
proof (induction rs arbitrary: w)
  case Nil
  then show ?case by simp
next
  case (Cons r rs)
  show ?case
  proof (cases "exec r")
    case None
    with Cons.prems obtain v where v: "scan r = Inr v" "prepare r = None"
      and rest: "copy_rows table stmt rs (tx_Exec (stmt, v) w) = Next w'"
      by (auto split: sum.splits option.splits)
    have nfk: "\<not> fk_violation r" using None by (simp add: fk_violation_def)
    show ?thesis
      using Cons.IH [OF rest] nfk by (simp add: tx_Exec_def)
  next
    case (Some e)
    with Cons.prems obtain v where v: "scan r = Inr v" "prepare r = None"
      and fk: "Contains e ''violates foreign key constraint''"
      and rest: "copy_rows table stmt rs
                   (tx_Begin (tx_Rollback (logf (SkippingRow e) (logf (FailedInsertValues table v) w)))) = Next w'"
      by (auto split: sum.splits option.splits if_splits simp: Let_def)
    have isfk: "fk_violation r" using Some fk by (simp add: fk_violation_def)
    show ?thesis
      using Cons.IH [OF rest] isfk
      by (simp add: tx_Begin_def tx_Rollback_def logf_def skipped_rows_def)
  qed
qed

text \<open>
  C3. A row is reached after the rows before it were copied, and its insert fails. If the
  error is a foreign-key violation, the transaction is rolled back, two lines are logged
  for the row (its values under the table's name, and that it is skipped), a new
  transaction is begun and the copy goes on with the next row of the same table (if the
  new transaction cannot be begun, the run aborts). For any other error the copy aborts at
  this row with one log line, and so does the whole run: whatever tables were copied
  before, \<open>main\<close> exits with status 1 in the state of that moment, no later row or table
  is touched and the row is not tried again. The skipped rows are counted by the log:
  when the copy of a table's rows completes, it has logged one skip line for each row
  whose insert violated a foreign key.
\<close>

theorem insert_failure_policy:
  assumes "scan r = Inr v" and "prepare r = None" and "exec r = Some e"
    and "copy_rows table stmt pre w1 = Next w2"
  shows
    "(Contains e ''violates foreign key constraint'' \<and> reopen r = None \<longrightarrow>
        copy_rows table stmt (pre @ r # post) w1 =
          copy_rows table stmt post
            (w2\<lparr>pending := [],
                logs := logs w2 @ [FailedInsertValues table v, SkippingRow e]\<rparr>))
     \<and> (Contains e ''violates foreign key constraint'' \<and> reopen r = Some e' \<longrightarrow>
        copy_rows table stmt (pre @ r # post) w1 =
          Abort (w2\<lparr>pending := [],
                   logs := logs w2 @ [FailedInsertValues table v, SkippingRow e, FailedBeginTx e']\<rparr>))
     \<and> (\<not> Contains e ''violates foreign key constraint'' \<longrightarrow>
        copy_rows table stmt (pre @ r # post) w1 =
          Abort (w2\<lparr>logs := logs w2 @ [FailedInsertRow table e]\<rparr>))
     \<and> (\<not> Contains e ''violates foreign key constraint''
        \<and> migrate_tables = copied @ table # todo \<and> table_loop env copied w = Next wt
        \<and> query (source env table) = None \<and> columns (source env table) = Inr cols
        \<and> begin_tx (source env table) = None \<and> rows (source env table) = pre @ r # post
        \<and> stmt = build_insert table cols \<and> w1 = tx_Begin wt
        \<and> sql_Open env ''sqlite3'' sqliteDBPath = None
        \<and> sql_Open env ''postgres'' postgresDBURL = None
        \<and> sqliteDBPath \<noteq> [] \<and> postgresDBURL \<noteq> [] \<longrightarrow>
        main env [''db:migrate'', sqliteDBPath, postgresDBURL] w =
          Exited 1 (w2\<lparr>logs := logs w2 @ [FailedInsertRow table e]\<rparr>))
     \<and> (copy_rows table stmt rs wa = Next wb \<longrightarrow>
        skipped_rows (logs wb) = skipped_rows (logs wa) + length (filter fk_violation rs))"
proof -
  have split: "copy_rows table stmt (pre @ r # post) w1 = copy_rows table stmt (r # post) w2"
    using assms(4) by (simp add: copy_rows_append del: copy_rows.simps)
  have fk: "Contains e ''violates foreign key constraint'' \<Longrightarrow> reopen r = None \<Longrightarrow>
      copy_rows table stmt (r # post) w2 =
        copy_rows table stmt post
          (w2\<lparr>pending := [], logs := logs w2 @ [FailedInsertValues table v, SkippingRow e]\<rparr>)"
    using copy_rows_violation [OF assms(1-3)] by simp
  have fk_fail: "Contains e ''violates foreign key constraint'' \<Longrightarrow> reopen r = Some e' \<Longrightarrow>
      copy_rows table stmt (r # post) w2 =
        Abort (w2\<lparr>pending := [],
                 logs := logs w2 @ [FailedInsertValues table v, SkippingRow e, FailedBeginTx e']\<rparr>)"
    using assms(1-3) by (cases w2) (simp add: Let_def logf_def tx_Rollback_def)
  have other: "\<not> Contains e ''violates foreign key constraint'' \<Longrightarrow>
      copy_rows table stmt (r # post) w2 = Abort (w2\<lparr>logs := logs w2 @ [FailedInsertRow table e]\<rparr>)"
    using assms(1-3) by (simp add: logf_def)
  have run: "main env [''db:migrate'', sqliteDBPath, postgresDBURL] w =
          Exited 1 (w2\<lparr>logs := logs w2 @ [FailedInsertRow table e]\<rparr>)"
    if nfk: "\<not> Contains e ''violates foreign key constraint''"
      and tabs: "migrate_tables = copied @ table # todo" and before: "table_loop env copied w = Next wt"
      and q: "query (source env table) = None" and c: "columns (source env table) = Inr cols"
      and b: "begin_tx (source env table) = None" and rs: "rows (source env table) = pre @ r # post"
      and st: "stmt = build_insert table cols" and w1: "w1 = tx_Begin wt"
      and o1: "sql_Open env ''sqlite3'' sqliteDBPath = None"
      and o2: "sql_Open env ''postgres'' postgresDBURL = None"
      and a1: "sqliteDBPath \<noteq> []" and a2: "postgresDBURL \<noteq> []"
  proof -
    let ?wf = "w2\<lparr>logs := logs w2 @ [FailedInsertRow table e]\<rparr>"
    have rows_abort: "copy_rows table (build_insert table cols) (rows (source env table)) (tx_Begin wt) = Abort ?wf"
      using split other [OF nfk] rs st w1 by simp
    have "migrate_table env table wt = Abort ?wf"
      using q c b rows_abort by (simp add: migrate_table_def Let_def)
    then have "table_loop env (copied @ table # todo) w = Abort ?wf"
      using before by (simp add: table_loop_append)
    then have "table_loop env migrate_tables w = Abort ?wf"
      by (simp only: tabs)
    then have "migrate env sqliteDBPath postgresDBURL w = Fatal ?wf"
      using o1 o2 by (simp add: migrate_def)
    then show ?thesis
      using a1 a2 by (simp add: main_def Arg_def run_def Let_def)
  qed
  show ?thesis
    using split fk fk_fail other run copy_rows_skipped [of table stmt rs wa wb] by simp
qed


theorem commit_after_last_violation_witness:
  "copy_rows ''filter_indexer'' ''INSERT'' [fk_row [VInt 9, VInt 1], ok_row [VInt 2, VInt 1]]
      (w0\<lparr>pending := [(''INSERT'', [VInt 1, VInt 1])]\<rparr>) =
     Next \<lparr>durable = [], pending = [(''INSERT'', [VInt 2, VInt 1])],
            logs = [FailedInsertValues ''filter_indexer'' [VInt 9, VInt 1], SkippingRow fk_error],
            out = []\<rparr>
   \<and> after_last_violation (rows (four_row_source ''filter_indexer'')) =
        [ok_row [VInt 2, VInt 1], ok_row [VInt 2, VInt 2]]
   \<and> inserted (ok_row [VInt 2, VInt 1]) \<and> inserted (ok_row [VInt 2, VInt 2])
   \<and> migrate_table (willing_env four_row_source no_files) ''filter_indexer'' w0 =
       Next \<lparr>durable =
           [(''INSERT INTO filter_indexer (filter_id, indexer_id) VALUES ($1, $2)'', [VInt 2, VInt 1]),
            (''INSERT INTO filter_indexer (filter_id, indexer_id) VALUES ($1, $2)'', [VInt 2, VInt 2])],
         pending = [],
         logs = [FailedInsertValues ''filter_indexer'' [VInt 9, VInt 1], SkippingRow fk_error],
         out = [MigratedTable ''filter_indexer'']\<rparr>
   \<and> migrate (willing_env four_row_source no_files) ''/config/autobrr.db''
         ''postgres://localhost/autobrr'' w0 =
       Returned \<lparr>durable =
           [(''INSERT INTO filter_indexer (filter_id, indexer_id) VALUES ($1, $2)'', [VInt 2, VInt 1]),
            (''INSERT INTO filter_indexer (filter_id, indexer_id) VALUES ($1, $2)'', [VInt 2, VInt 2])],
         pending = [],
         logs = [FailedInsertValues ''filter_indexer'' [VInt 9, VInt 1], SkippingRow fk_error],
         out = map MigratedTable migrate_tables @ [MigrationCompleted]\<rparr>
   \<and> concat (map (committed_rows (willing_env four_row_source no_files)) migrate_tables) =
        [(''INSERT INTO filter_indexer (filter_id, indexer_id) VALUES ($1, $2)'', [VInt 2, VInt 1]),
         (''INSERT INTO filter_indexer (filter_id, indexer_id) VALUES ($1, $2)'', [VInt 2, VInt 2])]"
proof -
  let ?env = "willing_env four_row_source no_files"
  let ?t = "''filter_indexer''"
  let ?r = "fk_row [VInt 9, VInt 1]"
  let ?w = "w0\<lparr>pending := [(''INSERT'', [VInt 1, VInt 1])]\<rparr>"
  let ?rows = "[(''INSERT INTO filter_indexer (filter_id, indexer_id) VALUES ($1, $2)'', [VInt 2, VInt 1]),
            (''INSERT INTO filter_indexer (filter_id, indexer_id) VALUES ($1, $2)'', [VInt 2, VInt 2])]"
  let ?wt = "\<lparr>durable = ?rows, pending = [],
         logs = [FailedInsertValues ''filter_indexer'' [VInt 9, VInt 1], SkippingRow fk_error],
         out = [MigratedTable ''filter_indexer'']\<rparr>"
  let ?w' = "\<lparr>durable = ?rows, pending = [],
         logs = [FailedInsertValues ''filter_indexer'' [VInt 9, VInt 1], SkippingRow fk_error],
         out = map MigratedTable migrate_tables @ [MigrationCompleted]\<rparr>"
  have r: "scan ?r = Inr [VInt 9, VInt 1] \<and> prepare ?r = None \<and> exec ?r = Some fk_error
      \<and> Contains fk_error ''violates foreign key constraint'' \<and> reopen ?r = None"
    by code_simp
  have rest: "copy_rows ?t ''INSERT'' [ok_row [VInt 2, VInt 1]]
        (?w\<lparr>pending := [],
             logs := logs ?w @ [FailedInsertValues ?t [VInt 9, VInt 1], SkippingRow fk_error]\<rparr>) =
      Next \<lparr>durable = [], pending = [(''INSERT'', [VInt 2, VInt 1])],
            logs = [FailedInsertValues ''filter_indexer'' [VInt 9, VInt 1], SkippingRow fk_error],
            out = []\<rparr>"
    by code_simp
  have one: "migrate_table ?env ?t w0 = Next ?wt"
    by code_simp
  have run: "migrate ?env ''/config/autobrr.db'' ''postgres://localhost/autobrr'' w0 = Returned ?w'"
    by code_simp
  have after: "after_last_violation (rows (source ?env ?t)) =
        [ok_row [VInt 2, VInt 1], ok_row [VInt 2, VInt 2]]"
    by code_simp
  have after': "after_last_violation (rows (four_row_source ?t)) =
        [ok_row [VInt 2, VInt 1], ok_row [VInt 2, VInt 2]]"
    by code_simp
  have d: "durable ?w' = ?rows" "durable w0 = []"
    by code_simp+
  note rollback = commit_after_last_violation
      [where r = ?r and v = "[VInt 9, VInt 1]" and e = fk_error and table = ?t
         and stmt = "''INSERT''" and rs = "[ok_row [VInt 2, VInt 1]]" and w = ?w,
       THEN conjunct1, THEN mp, OF r]
  note table = commit_after_last_violation
      [where env = ?env and table = ?t and w = w0 and w' = ?wt,
       THEN conjunct2, THEN conjunct1, THEN mp, OF one]
  note whole = commit_after_last_violation
      [where env = ?env and w = w0 and w' = ?w' and sqliteDBPath = "''/config/autobrr.db''"
         and postgresDBURL = "''postgres://localhost/autobrr''",
       THEN conjunct2, THEN conjunct2, THEN mp, OF run]
  have c1: "copy_rows ?t ''INSERT'' [?r, ok_row [VInt 2, VInt 1]] ?w =
     Next \<lparr>durable = [], pending = [(''INSERT'', [VInt 2, VInt 1])],
            logs = [FailedInsertValues ''filter_indexer'' [VInt 9, VInt 1], SkippingRow fk_error],
            out = []\<rparr>"
    using rollback rest by (simp only:)
  have c2: "inserted (ok_row [VInt 2, VInt 1]) \<and> inserted (ok_row [VInt 2, VInt 2])"
    using table [THEN conjunct2] by (simp only: after list.set ball_simps simp_thms)
  have c3: "concat (map (committed_rows ?env) migrate_tables) = ?rows"
    using whole by (simp only: d append_Nil)
  show ?thesis
    using c1 after' c2 one run c3 by (simp only: simp_thms)
qed

theorem insert_failure_policy_witness:
  "copy_rows ''filter_indexer'' ''INSERT'' (rows (four_row_source ''filter_indexer'')) w0 =
     copy_rows ''filter_indexer'' ''INSERT'' [ok_row [VInt 2, VInt 1], ok_row [VInt 2, VInt 2]]
       \<lparr>durable = [], pending = [],
        logs = [FailedInsertValues ''filter_indexer'' [VInt 9, VInt 1], SkippingRow fk_error],
        out = []\<rparr>
   \<and> main (willing_env too_long_source no_files)
        [''db:migrate'', ''/config/autobrr.db'', ''postgres://localhost/autobrr''] w0 =
      Exited 1
        \<lparr>durable = [],
         pending = [(''INSERT INTO users (id, username) VALUES ($1, $2)'', [VInt 1, VText ''admin''])],
         logs = [FailedInsertRow ''users'' ''pq: value too long for type character varying(16)''],
         out = []\<rparr>
   \<and> length (filter fk_violation (rows (four_row_source ''filter_indexer''))) = 1
   \<and> skipped_rows (logs \<lparr>durable = [],
          pending = [(''INSERT'', [VInt 2, VInt 1]), (''INSERT'', [VInt 2, VInt 2])],
          logs = [FailedInsertValues ''filter_indexer'' [VInt 9, VInt 1], SkippingRow fk_error],
          out = []\<rparr>) =
       skipped_rows (logs w0) + length (filter fk_violation (rows (four_row_source ''filter_indexer'')))"
proof -
  let ?fk = "fk_row [VInt 9, VInt 1]"
  let ?w2 = "w0\<lparr>pending := [(''INSERT'', [VInt 1, VInt 1])]\<rparr>"
  have fk: "scan ?fk = Inr [VInt 9, VInt 1]" "prepare ?fk = None" "exec ?fk = Some fk_error"
    "copy_rows ''filter_indexer'' ''INSERT'' [ok_row [VInt 1, VInt 1]] w0 = Next ?w2"
    by code_simp+
  have fk': "Contains fk_error ''violates foreign key constraint'' \<and> reopen ?fk = None"
    by code_simp
  have rows4: "rows (four_row_source ''filter_indexer'') =
      [ok_row [VInt 1, VInt 1]] @ ?fk # [ok_row [VInt 2, VInt 1], ok_row [VInt 2, VInt 2]]"
    by code_simp
  have w2: "?w2\<lparr>pending := [],
        logs := logs ?w2 @ [FailedInsertValues ''filter_indexer'' [VInt 9, VInt 1], SkippingRow fk_error]\<rparr> =
      \<lparr>durable = [], pending = [],
        logs = [FailedInsertValues ''filter_indexer'' [VInt 9, VInt 1], SkippingRow fk_error],
        out = []\<rparr>"
    by code_simp
  note first = insert_failure_policy [OF fk, where post = "[ok_row [VInt 2, VInt 1], ok_row [VInt 2, VInt 2]]"]
  let ?env = "willing_env too_long_source no_files"
  let ?bad = "bad_row [VInt 2, VText ''a name of more than sixteen bytes'']"
  let ?e = "''pq: value too long for type character varying(16)''"
  let ?stmt = "build_insert ''users'' [''id'', ''username'']"
  let ?u2 = "w0\<lparr>pending := [(?stmt, [VInt 1, VText ''admin''])]\<rparr>"
  have bad: "scan ?bad = Inr [VInt 2, VText ''a name of more than sixteen bytes'']"
    "prepare ?bad = None" "exec ?bad = Some ?e"
    "copy_rows ''users'' ?stmt [ok_row [VInt 1, VText ''admin'']] (tx_Begin w0) = Next ?u2"
    by code_simp+
  have bad': "\<not> Contains ?e ''violates foreign key constraint''
      \<and> migrate_tables = [] @ ''users'' # tl migrate_tables
      \<and> table_loop ?env [] w0 = Next w0
      \<and> query (source ?env ''users'') = None
      \<and> columns (source ?env ''users'') = Inr [''id'', ''username'']
      \<and> begin_tx (source ?env ''users'') = None
      \<and> rows (source ?env ''users'') =
           [ok_row [VInt 1, VText ''admin'']] @ ?bad # [ok_row [VInt 3, VText ''guest'']]
      \<and> sql_Open ?env ''sqlite3'' ''/config/autobrr.db'' = None
      \<and> sql_Open ?env ''postgres'' ''postgres://localhost/autobrr'' = None"
    by code_simp
  have u2: "?u2\<lparr>logs := logs ?u2 @ [FailedInsertRow ''users'' ?e]\<rparr> =
      \<lparr>durable = [],
         pending = [(''INSERT INTO users (id, username) VALUES ($1, $2)'', [VInt 1, VText ''admin''])],
         logs = [FailedInsertRow ''users'' ?e], out = []\<rparr>"
    by code_simp
  note second = insert_failure_policy [OF bad, where post = "[ok_row [VInt 3, VText ''guest'']]" and copied = "[]" and todo = "tl migrate_tables"
      and env = ?env and w = w0 and wt = w0 and cols = "[''id'', ''username'']"
      and sqliteDBPath = "''/config/autobrr.db''" and postgresDBURL = "''postgres://localhost/autobrr''"]
  have a: "copy_rows ''filter_indexer'' ''INSERT'' (rows (four_row_source ''filter_indexer'')) w0 =
     copy_rows ''filter_indexer'' ''INSERT'' [ok_row [VInt 2, VInt 1], ok_row [VInt 2, VInt 2]]
       \<lparr>durable = [], pending = [],
        logs = [FailedInsertValues ''filter_indexer'' [VInt 9, VInt 1], SkippingRow fk_error],
        out = []\<rparr>"
    using first fk' by (simp only: rows4 w2 simp_thms)
  have b: "main ?env [''db:migrate'', ''/config/autobrr.db'', ''postgres://localhost/autobrr''] w0 =
      Exited 1
        \<lparr>durable = [],
         pending = [(''INSERT INTO users (id, username) VALUES ($1, $2)'', [VInt 1, VText ''admin''])],
         logs = [FailedInsertRow ''users'' ?e], out = []\<rparr>"
    using second bad' by (simp only: u2 simp_thms list.simps not_False_eq_True)
  have all4: "copy_rows ''filter_indexer'' ''INSERT'' (rows (four_row_source ''filter_indexer'')) w0 =
      Next \<lparr>durable = [],
          pending = [(''INSERT'', [VInt 2, VInt 1]), (''INSERT'', [VInt 2, VInt 2])],
          logs = [FailedInsertValues ''filter_indexer'' [VInt 9, VInt 1], SkippingRow fk_error],
          out = []\<rparr>"
    by code_simp
  have one: "length (filter fk_violation (rows (four_row_source ''filter_indexer''))) = 1"
    by code_simp
  note c = insert_failure_policy [OF fk, THEN conjunct2, THEN conjunct2, THEN conjunct2,
      THEN conjunct2, THEN mp, OF all4]
  from a b one c show ?thesis by (intro conjI)
qed

subsection \<open>Splitting a script\<close>

lemma Split_not_Nil: "Split s sep \<noteq> []"
  by (induction s) (auto split: list.splits)

lemma join_Cons: "xs \<noteq> [] \<Longrightarrow> join sep (x # xs) = x @ sep # join sep xs"
  by (cases xs) simp_all

lemma join_Split: "join sep (Split s sep) = s"
proof (induction s)
  case Nil
  then show ?case by simp
next
  case (Cons c cs)
  show ?case
  proof (cases "c = sep")
    case True
    then show ?thesis using Cons by (simp add: join_Cons Split_not_Nil)
  next
    case False
    obtain x xs where sp: "Split cs sep = x # xs"
      using Split_not_Nil [of cs sep] by (cases "Split cs sep") auto
    have "join sep ((c # x) # xs) = c # join sep (x # xs)"
      by (cases xs) simp_all
    then show ?thesis using False Cons sp by simp
  qed
qed

lemma Split_no_separator: "f \<in> set (Split s sep) \<Longrightarrow> sep \<notin> set f"
proof (induction s arbitrary: f)
  case Nil
  then show ?case by simp
next
  case (Cons c cs)
  obtain x xs where sp: "Split cs sep = x # xs"
    using Split_not_Nil [of cs sep] by (cases "Split cs sep") auto
  show ?case
  proof (cases "c = sep")
    case True
    with Cons show ?thesis by auto
  next
    case False
    with Cons.prems sp have "f = c # x \<or> f \<in> set xs" by simp
    then show ?thesis
      using Cons.IH [of x] Cons.IH [of f] sp False by auto
  qed
qed

lemma length_Split: "length (Split s sep) = Suc (count_list s sep)"
proof (induction s)
  case Nil
  then show ?case by simp
next
  case (Cons c cs)
  obtain x xs where sp: "Split cs sep = x # xs"
    using Split_not_Nil [of cs sep] by (cases "Split cs sep") auto
  show ?case using Cons sp by auto
qed

subsection \<open>The loops of seed and reset\<close>

lemma keeps_transaction_Cons:
  "keeps_transaction env (c # cs) =
     (sqlite_control env c \<noteq> Commits \<and> sqlite_control env c \<noteq> RollsBack
      \<and> keeps_transaction env cs)"
  by (simp add: keeps_transaction_def)

lemma fragment_Exec_kept:
  assumes "sqlite_control env cmd \<noteq> Commits" and "sqlite_control env cmd \<noteq> RollsBack"
  shows "fragment_Exec env cmd True w =
     (case sqlite_exec env (durable w) (pending w) cmd of
        Some e \<Rightarrow> Inl e
      | None \<Rightarrow> Inr (True, tx_Exec (cmd, []) w))"
  using assms
  by (cases "sqlite_control env cmd") (simp_all add: fragment_Exec_def split: option.splits)

text \<open>One turn of the loop while the transaction is kept.\<close>

lemma seed_loop_kept:
  assumes "keeps_transaction env (c # cs)"
  shows "seed_loop env (c # cs) True w =
     (case sqlite_exec env (durable w) (pending w) c of
        Some e \<Rightarrow> (True, Return (tx_Rollback (logf (failed_execute_SQL e) w)))
      | None \<Rightarrow> seed_loop env cs True (tx_Exec (c, []) w))"
proof -
  have c: "sqlite_control env c \<noteq> Commits" "sqlite_control env c \<noteq> RollsBack"
    using assms by (simp_all add: keeps_transaction_Cons)
  show ?thesis
    by (simp add: fragment_Exec_kept [OF c] Let_def split: option.splits)
qed

lemma seed_loop_not_Abort: "snd (seed_loop env cmds active w) \<noteq> Abort w'"
proof (induction cmds arbitrary: active w)
  case Nil
  then show ?case by simp
next
  case (Cons c cs)
  show ?case
  proof (cases "fragment_Exec env c active w")
    case (Inl e)
    then show ?thesis by (simp add: Let_def)
  next
    case (Inr p)
    then show ?thesis using Cons.IH by (cases p) simp
  qed
qed

lemma seed_loop_Next:
  "keeps_transaction env cmds \<Longrightarrow> seed_loop env cmds True w = (a, Next w') \<Longrightarrow>
     a \<and> w' = w\<lparr>pending := pending w @ map statement cmds\<rparr>"
proof (induction cmds arbitrary: w)
  case Nil
  then show ?case by simp
next
  case (Cons c cs)
  have k: "keeps_transaction env cs" using Cons.prems(1) by (simp add: keeps_transaction_Cons)
  from Cons.prems have ok: "sqlite_exec env (durable w) (pending w) c = None"
    and rest: "seed_loop env cs True (tx_Exec (c, []) w) = (a, Next w')"
    by (auto simp: seed_loop_kept simp del: seed_loop.simps split: option.splits)
  show ?case
    using Cons.IH [OF k rest] by (cases w) (simp add: tx_Exec_def statement_def [abs_def])
qed

lemma seed_loop_Return:
  "keeps_transaction env cmds \<Longrightarrow> seed_loop env cmds True w = (a, Return w') \<Longrightarrow>
     \<exists>e. w' = w\<lparr>pending := [], logs := logs w @ [failed_execute_SQL e]\<rparr>"
proof (induction cmds arbitrary: w)
  case Nil
  then show ?case by simp
next
  case (Cons c cs)
  have k: "keeps_transaction env cs" using Cons.prems(1) by (simp add: keeps_transaction_Cons)
  note step = seed_loop_kept [OF Cons.prems(1), of w]
  show ?case
  proof (cases "sqlite_exec env (durable w) (pending w) c")
    case (Some e)
    with Cons.prems(2) step have "w' = tx_Rollback (logf (failed_execute_SQL e) w)"
      by (simp del: seed_loop.simps)
    then show ?thesis by (cases w) (auto simp: tx_Rollback_def logf_def)
  next
    case None
    with Cons.prems(2) step have "seed_loop env cs True (tx_Exec (c, []) w) = (a, Return w')"
      by (simp del: seed_loop.simps)
    from Cons.IH [OF k this] show ?thesis by (cases w) (auto simp: tx_Exec_def)
  qed
qed

lemma seed_loop_failure:
  "keeps_transaction env cmds \<Longrightarrow> i < length cmds \<Longrightarrow>
   sqlite_exec env (durable w) (pending w @ map statement (take i cmds)) (cmds ! i) = Some e \<Longrightarrow>
   \<exists>e'. seed_loop env cmds True w =
          (True, Return (w\<lparr>pending := [], logs := logs w @ [failed_execute_SQL e']\<rparr>))"
proof (induction cmds arbitrary: i w)
  case Nil
  then show ?case by simp
next
  case (Cons c cs)
  have k: "keeps_transaction env cs" using Cons.prems(1) by (simp add: keeps_transaction_Cons)
  note step = seed_loop_kept [OF Cons.prems(1), of w]
  show ?case
  proof (cases "sqlite_exec env (durable w) (pending w) c")
    case (Some e0)
    with step have "seed_loop env (c # cs) True w =
        (True, Return (tx_Rollback (logf (failed_execute_SQL e0) w)))"
      by (simp del: seed_loop.simps)
    then show ?thesis by (cases w) (auto simp: tx_Rollback_def logf_def simp del: seed_loop.simps)
  next
    case None
    with Cons.prems obtain j where i: "i = Suc j" by (cases i) auto
    let ?w1 = "tx_Exec (c, []) w"
    have j: "j < length cs" using Cons.prems i by simp
    have fail: "sqlite_exec env (durable ?w1) (pending ?w1 @ map statement (take j cs)) (cs ! j) = Some e"
      using Cons.prems i by (simp add: tx_Exec_def statement_def [abs_def])
    from Cons.IH [OF k j fail] obtain e' where
      "seed_loop env cs True ?w1 =
         (True, Return (?w1\<lparr>pending := [], logs := logs ?w1 @ [failed_execute_SQL e']\<rparr>))"
      by blast
    then have "seed_loop env (c # cs) True w =
        (True, Return (w\<lparr>pending := [], logs := logs w @ [failed_execute_SQL e']\<rparr>))"
      using None step by (cases w) (simp add: tx_Exec_def del: seed_loop.simps)
    then show ?thesis by blast
  qed
qed

text \<open>The first fragment that is refused ends the loop, with its own error.\<close>

lemma seed_loop_refused:
  "keeps_transaction env cmds \<Longrightarrow> i < length cmds \<Longrightarrow>
   \<forall>j<i. sqlite_exec env (durable w) (pending w @ map statement (take j cmds)) (cmds ! j) = None \<Longrightarrow>
   sqlite_exec env (durable w) (pending w @ map statement (take i cmds)) (cmds ! i) = Some e \<Longrightarrow>
   seed_loop env cmds True w =
     (True, Return (w\<lparr>pending := [], logs := logs w @ [failed_execute_SQL e]\<rparr>))"
proof (induction cmds arbitrary: i w)
  case Nil
  then show ?case by simp
next
  case (Cons c cs)
  have k: "keeps_transaction env cs" using Cons.prems(1) by (simp add: keeps_transaction_Cons)
  note step = seed_loop_kept [OF Cons.prems(1), of w]
  show ?case
  proof (cases i)
    case 0
    with Cons.prems(4) have "sqlite_exec env (durable w) (pending w) c = Some e" by simp
    with step show ?thesis
      by (cases w) (simp add: tx_Rollback_def logf_def del: seed_loop.simps)
  next
    case (Suc j)
    let ?w1 = "tx_Exec (c, []) w"
    have first: "sqlite_exec env (durable w) (pending w) c = None"
      using Cons.prems(3) Suc by (auto dest: spec [of _ 0])
    have j: "j < length cs" using Cons.prems(2) Suc by simp
    have before: "\<forall>l<j. sqlite_exec env (durable ?w1) (pending ?w1 @ map statement (take l cs)) (cs ! l) = None"
    proof (intro allI impI)
      fix l assume "l < j"
      then have "Suc l < i" using Suc by simp
      with Cons.prems(3) have
        "sqlite_exec env (durable w) (pending w @ map statement (take (Suc l) (c # cs))) ((c # cs) ! Suc l) = None"
        by blast
      then show "sqlite_exec env (durable ?w1) (pending ?w1 @ map statement (take l cs)) (cs ! l) = None"
        by (simp add: tx_Exec_def statement_def [abs_def])
    qed
    have fail: "sqlite_exec env (durable ?w1) (pending ?w1 @ map statement (take j cs)) (cs ! j) = Some e"
      using Cons.prems(4) Suc by (simp add: tx_Exec_def statement_def [abs_def])
    from Cons.IH [OF k j before fail] show ?thesis
      using first step by (cases w) (simp add: tx_Exec_def del: seed_loop.simps)
  qed
qed

lemma seed_loop_success:
  "keeps_transaction env cmds \<Longrightarrow>
   \<forall>i<length cmds.
      sqlite_exec env (durable w) (pending w @ map statement (take i cmds)) (cmds ! i) = None \<Longrightarrow>
   seed_loop env cmds True w = (True, Next (w\<lparr>pending := pending w @ map statement cmds\<rparr>))"
proof (induction cmds arbitrary: w)
  case Nil
  then show ?case by simp
next
  case (Cons c cs)
  have k: "keeps_transaction env cs" using Cons.prems(1) by (simp add: keeps_transaction_Cons)
  note step = seed_loop_kept [OF Cons.prems(1), of w]
  let ?w1 = "tx_Exec (c, []) w"
  from Cons.prems(2) have first: "sqlite_exec env (durable w) (pending w) c = None"
    by auto
  have rest: "\<forall>i<length cs.
      sqlite_exec env (durable ?w1) (pending ?w1 @ map statement (take i cs)) (cs ! i) = None"
  proof (intro allI impI)
    fix i assume "i < length cs"
    then have "Suc i < length (c # cs)" by simp
    with Cons.prems(2) have
      "sqlite_exec env (durable w) (pending w @ map statement (take (Suc i) (c # cs))) ((c # cs) ! Suc i) = None"
      by blast
    then show "sqlite_exec env (durable ?w1) (pending ?w1 @ map statement (take i cs)) (cs ! i) = None"
      by (simp add: tx_Exec_def statement_def [abs_def])
  qed
  show ?case
    using first step Cons.IH [OF k rest]
    by (cases w) (simp add: tx_Exec_def statement_def [abs_def] del: seed_loop.simps)
qed


lemma reset_loop_not_Abort: "reset_loop env tables w \<noteq> Abort w'"
  by (induction tables arbitrary: w) (auto simp: sqlite_Exec_def split: option.splits)

lemma reset_statements_Cons:
  "reset_statements kept (t # ts) =
     statement (delete_text t) # (if t \<in> kept then [statement (sequence_text t)] else [])
       @ reset_statements kept ts"
  by (simp add: reset_statements_def)

lemma reset_statements_Nil [simp]: "reset_statements kept [] = []"
  by (simp add: reset_statements_def)

lemma reset_statements_cong:
  "\<forall>t\<in>set ts. (t \<in> kept) = (t \<in> kept') \<Longrightarrow> reset_statements kept ts = reset_statements kept' ts"
  by (induction ts) (auto simp: reset_statements_Cons)

lemma reset_loop_Next:
  "distinct tables \<Longrightarrow> reset_loop env tables w = Next w' \<Longrightarrow>
     \<exists>kept. w' = w\<lparr>pending := pending w @ reset_statements kept tables\<rparr>"
proof (induction tables arbitrary: w)
  case Nil
  then show ?case by simp
next
  case (Cons t ts)
  let ?w1 = "tx_Exec (delete_text t, []) w"
  from Cons.prems have del: "sqlite_exec env (durable w) (pending w) (delete_text t) = None"
    by (auto simp: sqlite_Exec_def split: option.splits)
  have d: "distinct ts" and t: "t \<notin> set ts" using Cons.prems by auto
  show ?case
  proof (cases "sqlite_exec env (durable ?w1) (pending ?w1) (sequence_text t)")
    case None
    let ?w2 = "tx_Exec (sequence_text t, []) ?w1"
    from Cons.prems del None have "reset_loop env ts ?w2 = Next w'"
      by (simp add: sqlite_Exec_def)
    from Cons.IH [OF d this] obtain kept where
      w': "w' = ?w2\<lparr>pending := pending ?w2 @ reset_statements kept ts\<rparr>" by blast
    have "reset_statements (insert t kept) ts = reset_statements kept ts"
      using t by (intro reset_statements_cong) auto
    then have "w' = w\<lparr>pending := pending w @ reset_statements (insert t kept) (t # ts)\<rparr>"
      using w' by (cases w) (simp add: reset_statements_Cons tx_Exec_def statement_def [abs_def])
    then show ?thesis by blast
  next
    case (Some e)
    from Cons.prems del Some have "reset_loop env ts ?w1 = Next w'"
      by (auto simp: sqlite_Exec_def split: if_splits)
    from Cons.IH [OF d this] obtain kept where
      w': "w' = ?w1\<lparr>pending := pending ?w1 @ reset_statements kept ts\<rparr>" by blast
    have "reset_statements (kept - {t}) ts = reset_statements kept ts"
      using t by (intro reset_statements_cong) auto
    then have "w' = w\<lparr>pending := pending w @ reset_statements (kept - {t}) (t # ts)\<rparr>"
      using w' by (cases w) (simp add: reset_statements_Cons tx_Exec_def statement_def [abs_def])
    then show ?thesis by blast
  qed
qed

lemma reset_loop_Return:
  "reset_loop env tables w = Return w' \<Longrightarrow>
     durable w' = durable w \<and> pending w' = [] \<and> out w' = out w \<and> logs w' \<noteq> logs w"
proof (induction tables arbitrary: w)
  case Nil
  then show ?case by simp
next
  case (Cons t ts)
  have frame: "durable w' = durable w1 \<and> pending w' = [] \<and> out w' = out w1 \<and> logs w' \<noteq> logs w1"
    if "reset_loop env ts w1 = Return w'" for w1
    using Cons.IH [OF that] .
  from Cons.prems show ?case
    by (auto simp: sqlite_Exec_def tx_Exec_def tx_Rollback_def logf_def
        split: option.splits if_splits dest!: frame)
qed

lemma Split_trailing: "Split (s @ [sep]) sep = Split s sep @ [[]]"
proof (induction s)
  case Nil
  then show ?case by simp
next
  case (Cons c cs)
  obtain x xs where sp: "Split cs sep = x # xs"
    using Split_not_Nil [of cs sep] by (cases "Split cs sep") auto
  show ?case using Cons sp by simp
qed

lemma seedDB_all_or_nothing:
  assumes "\<forall>sqlFile. files env seedDBPath = Inr sqlFile \<longrightarrow>
             keeps_transaction env (Split sqlFile (CHR '';''))"
  shows "durable (world_of (seedDB env seedDBPath dbPath w)) = durable w
   \<or> (\<exists>sqlFile. files env seedDBPath = Inr sqlFile
        \<and> seedDB env seedDBPath dbPath w =
            Returned (w\<lparr>durable := durable w @ map statement (Split sqlFile (CHR '';'')),
                        pending := []\<rparr>))"
proof (cases "files env seedDBPath")
  case (Inl e)
  then show ?thesis by (simp add: seedDB_def world_of_def logf_def)
next
  case (Inr sqlFile)
  with assms have k: "keeps_transaction env (Split sqlFile (CHR '';''))" by simp
  obtain a fl where loop: "seed_loop env (Split sqlFile (CHR '';'')) True (tx_Begin w) = (a, fl)"
    by (cases "seed_loop env (Split sqlFile (CHR '';'')) True (tx_Begin w)")
  show ?thesis
  proof (cases fl)
    case (Abort w')
    with loop seed_loop_not_Abort [of env "Split sqlFile (CHR '';'')" True "tx_Begin w" w']
    show ?thesis by simp
  next
    case (Return w')
    from seed_loop_Return [OF k loop [unfolded Return]] have "durable w' = durable w"
      by (auto simp: tx_Begin_def)
    then show ?thesis
      using Inr loop Return by (simp add: seedDB_def world_of_def logf_def split: option.splits)
  next
    case (Next w')
    from seed_loop_Next [OF k loop [unfolded Next]]
    have a: "a" and w': "w' = w\<lparr>pending := map statement (Split sqlFile (CHR '';''))\<rparr>"
      by (cases w; simp add: tx_Begin_def)+
    show ?thesis
      using Inr loop Next a unfolding w'
      by (cases w) (simp add: seedDB_def world_of_def logf_def tx_Commit_def split: option.splits)
  qed
qed

text \<open>
  C6, as amended. The script has been read and none of its fragments commits or rolls
  back the transaction by itself. If its i-th statement fails when it is executed after
  the statements before it, the seed leaves the durable content of the store as it was:
  when the store could be opened and the transaction begun, \<open>seedDB\<close> logs the failure of
  the first statement that fails, rolls its one transaction back and returns. More
  generally the seed of such a script is all or nothing: whatever happens, either the
  durable content is unchanged or every statement of the script was executed and
  committed.
\<close>

theorem seed_failure_commits_nothing:
  "(files env seedDBPath = Inr sqlFile
      \<and> keeps_transaction env (Split sqlFile (CHR '';''))
      \<and> i < length (Split sqlFile (CHR '';''))
      \<and> sqlite_exec env (durable w) (map statement (take i (Split sqlFile (CHR '';''))))
            (Split sqlFile (CHR '';'') ! i) = Some e \<longrightarrow>
    durable (world_of (seedDB env seedDBPath dbPath w)) = durable w
    \<and> (sql_Open env ''sqlite'' dbPath = None \<and> sqlite_begin env (durable w) = None \<longrightarrow>
         (\<exists>e'. seedDB env seedDBPath dbPath w =
                 Returned (w\<lparr>pending := [], logs := logs w @ [failed_execute_SQL e']\<rparr>))))
   \<and> ((\<forall>sqlFile. files env seedDBPath = Inr sqlFile \<longrightarrow>
          keeps_transaction env (Split sqlFile (CHR '';''))) \<longrightarrow>
      durable (world_of (seedDB env seedDBPath dbPath w)) = durable w
      \<or> (\<exists>sqlFile. files env seedDBPath = Inr sqlFile
           \<and> seedDB env seedDBPath dbPath w =
               Returned (w\<lparr>durable := durable w @ map statement (Split sqlFile (CHR '';'')),
                           pending := []\<rparr>)))"
proof -
  have fail: "durable (world_of (seedDB env seedDBPath dbPath w)) = durable w
    \<and> (sql_Open env ''sqlite'' dbPath = None \<and> sqlite_begin env (durable w) = None \<longrightarrow>
         (\<exists>e'. seedDB env seedDBPath dbPath w =
                 Returned (w\<lparr>pending := [], logs := logs w @ [failed_execute_SQL e']\<rparr>)))"
    if f: "files env seedDBPath = Inr sqlFile"
      and k: "keeps_transaction env (Split sqlFile (CHR '';''))"
      and i: "i < length (Split sqlFile (CHR '';''))"
      and e: "sqlite_exec env (durable w) (map statement (take i (Split sqlFile (CHR '';''))))
            (Split sqlFile (CHR '';'') ! i) = Some e"
  proof -
    have "sqlite_exec env (durable (tx_Begin w))
            (pending (tx_Begin w) @ map statement (take i (Split sqlFile (CHR '';''))))
            (Split sqlFile (CHR '';'') ! i) = Some e"
      using e by (simp add: tx_Begin_def)
    from seed_loop_failure [OF k i this] obtain e' where
      "seed_loop env (Split sqlFile (CHR '';'')) True (tx_Begin w) =
         (True, Return ((tx_Begin w)\<lparr>pending := [], logs := logs (tx_Begin w) @ [failed_execute_SQL e']\<rparr>))"
      by blast
    then have loop: "seed_loop env (Split sqlFile (CHR '';'')) True (tx_Begin w) =
         (True, Return (w\<lparr>pending := [], logs := logs w @ [failed_execute_SQL e']\<rparr>))"
      by (cases w) (simp add: tx_Begin_def)
    show ?thesis
      using f loop by (auto simp: seedDB_def world_of_def logf_def split: option.splits)
  qed
  show ?thesis
    using fail seedDB_all_or_nothing [of env seedDBPath dbPath w] by blast
qed

text \<open>
  C6 as the specification states it fails for a script with a \<open>COMMIT\<close> of its own. The
  engine commits the first insert when it executes the second fragment; the third
  statement fails, the rollback of \<open>seedDB\<close> finds no transaction (its error is dropped)
  and the first insert stays in the store: a statement failed and the seed is partial.
  It fails for a script with a \<open>ROLLBACK\<close> of its own too: the engine ends the
  transaction, the insert after it is durable at once, and the failure of the last
  statement cannot undo it.
\<close>

theorem seed_commit_fragment_keeps_rows:
  "Split commit_script (CHR '';'') =
     [''INSERT INTO client (id, name) VALUES (1, 2)'', ''COMMIT'',
      ''INSERT INTO nope (id) VALUES (1)'']
   \<and> seedDB (refusing_env ''INSERT INTO nope (id) VALUES (1)'' ''no such table: nope'')
        ''/path/to/commit'' ''/path/to/sqlite.db'' w0 =
       Returned \<lparr>durable = [(''INSERT INTO client (id, name) VALUES (1, 2)'', []),
                            (''COMMIT'', [])],
                 pending = [],
                 logs = [failed_execute_SQL ''no such table: nope''], out = []\<rparr>
   \<and> Split rollback_script (CHR '';'') =
     [''ROLLBACK'', ''INSERT INTO client (id, name) VALUES (1, 2)'',
      ''INSERT INTO nope (id) VALUES (1)'']
   \<and> seedDB (refusing_env ''INSERT INTO nope (id) VALUES (1)'' ''no such table: nope'')
        ''/path/to/rollback'' ''/path/to/sqlite.db'' w0 =
       Returned \<lparr>durable = [(''INSERT INTO client (id, name) VALUES (1, 2)'', [])],
                 pending = [],
                 logs = [failed_execute_SQL ''no such table: nope''], out = []\<rparr>"
  by code_simp

theorem seed_failure_commits_nothing_witness:
  "Split seed_script (CHR '';'') =
     [''INSERT INTO client (id, name) VALUES (1, 2)'', ''INSERT INTO feed (id, name) VALUES (1, 3)'', '''']
   \<and> keeps_transaction
        (refusing_env ''INSERT INTO feed (id, name) VALUES (1, 3)'' ''UNIQUE constraint failed: feed.id'')
        (Split seed_script (CHR '';''))
   \<and> durable (world_of (seedDB
         (refusing_env ''INSERT INTO feed (id, name) VALUES (1, 3)'' ''UNIQUE constraint failed: feed.id'')
         ''/path/to/seed'' ''/path/to/sqlite.db'' w0)) = durable w0
   \<and> seedDB
         (refusing_env ''INSERT INTO feed (id, name) VALUES (1, 3)'' ''UNIQUE constraint failed: feed.id'')
         ''/path/to/seed'' ''/path/to/sqlite.db'' w0 =
       Returned \<lparr>durable = [], pending = [],
                 logs = [failed_execute_SQL ''UNIQUE constraint failed: feed.id''], out = []\<rparr>
   \<and> (durable (world_of (seedDB (willing_env no_rows seed_files)
          ''/path/to/seed'' ''/path/to/sqlite.db'' w0)) = durable w0
      \<or> (\<exists>sqlFile. files (willing_env no_rows seed_files) ''/path/to/seed'' = Inr sqlFile
           \<and> seedDB (willing_env no_rows seed_files) ''/path/to/seed'' ''/path/to/sqlite.db'' w0 =
               Returned (w0\<lparr>durable := durable w0 @ map statement (Split sqlFile (CHR '';'')),
                           pending := []\<rparr>)))"
proof -
  let ?env = "refusing_env ''INSERT INTO feed (id, name) VALUES (1, 3)'' ''UNIQUE constraint failed: feed.id''"
  let ?wil = "willing_env no_rows seed_files"
  have split: "Split seed_script (CHR '';'') =
     [''INSERT INTO client (id, name) VALUES (1, 2)'', ''INSERT INTO feed (id, name) VALUES (1, 3)'', '''']"
    by code_simp
  have k: "keeps_transaction ?env (Split seed_script (CHR '';''))"
    by code_simp
  have hyp: "files ?env ''/path/to/seed'' = Inr seed_script
      \<and> keeps_transaction ?env (Split seed_script (CHR '';''))
      \<and> 1 < length (Split seed_script (CHR '';''))
      \<and> sqlite_exec ?env (durable w0) (map statement (take 1 (Split seed_script (CHR '';''))))
            (Split seed_script (CHR '';'') ! 1) = Some ''UNIQUE constraint failed: feed.id''"
    by code_simp
  have run: "seedDB ?env ''/path/to/seed'' ''/path/to/sqlite.db'' w0 =
       Returned \<lparr>durable = [], pending = [],
                 logs = [failed_execute_SQL ''UNIQUE constraint failed: feed.id''], out = []\<rparr>"
    by code_simp
  note unchanged = seed_failure_commits_nothing
      [where env = ?env and seedDBPath = "''/path/to/seed''" and sqlFile = seed_script and i = 1
         and w = w0 and e = "''UNIQUE constraint failed: feed.id''" and dbPath = "''/path/to/sqlite.db''",
       THEN conjunct1, THEN mp, OF hyp, THEN conjunct1]
  have kept: "durable (world_of (seedDB ?env ''/path/to/seed'' ''/path/to/sqlite.db'' w0)) = durable w0"
    by (rule unchanged)
  have every: "\<forall>sqlFile. files ?wil ''/path/to/seed'' = Inr sqlFile \<longrightarrow>
                 keeps_transaction ?wil (Split sqlFile (CHR '';''))"
  proof (intro allI impI)
    fix sqlFile
    assume "files ?wil ''/path/to/seed'' = Inr sqlFile"
    moreover have "files ?wil ''/path/to/seed'' = Inr seed_script" by code_simp
    ultimately have "sqlFile = seed_script" by simp
    moreover have "keeps_transaction ?wil (Split seed_script (CHR '';''))" by code_simp
    ultimately show "keeps_transaction ?wil (Split sqlFile (CHR '';''))" by simp
  qed
  note whole = seed_failure_commits_nothing
      [where env = ?wil and seedDBPath = "''/path/to/seed''" and w = w0
         and dbPath = "''/path/to/sqlite.db''",
       THEN conjunct2, THEN mp, OF every]
  show ?thesis using split k kept run whole by (simp only: simp_thms)
qed

text \<open>
  C8, as amended. The script is split at every semicolon, wherever it stands: the
  fragments contain no semicolon, put together with semicolons they are the script again,
  and there is one more of them than semicolons; a script that ends with a semicolon has
  the empty string as its last fragment. The store opens, the transaction begins, and no
  fragment commits or rolls back by itself. Then the fragments, the empty ones like any
  other, are passed to the store in order inside the one transaction, each after those
  before it, until one is refused. When none is refused (and the commit succeeds) all of
  them are committed together. At the first fragment that is refused \<open>seedDB\<close> logs its
  error, rolls the transaction back and returns: the fragments after it are not executed.
\<close>

theorem seed_executes_every_fragment:
  assumes "files env seedDBPath = Inr sqlFile"
    and "sql_Open env ''sqlite'' dbPath = None"
    and "sqlite_begin env (durable w) = None"
    and "keeps_transaction env (Split sqlFile (CHR '';''))"
  shows "((\<forall>i<length (Split sqlFile (CHR '';'')).
             sqlite_exec env (durable w) (map statement (take i (Split sqlFile (CHR '';''))))
               (Split sqlFile (CHR '';'') ! i) = None)
          \<and> sqlite_commit env (durable w) (map statement (Split sqlFile (CHR '';''))) = None \<longrightarrow>
          seedDB env seedDBPath dbPath w =
            Returned (w\<lparr>durable := durable w @ map statement (Split sqlFile (CHR '';'')),
                        pending := []\<rparr>))
         \<and> (i < length (Split sqlFile (CHR '';''))
          \<and> (\<forall>j<i. sqlite_exec env (durable w) (map statement (take j (Split sqlFile (CHR '';''))))
                       (Split sqlFile (CHR '';'') ! j) = None)
          \<and> sqlite_exec env (durable w) (map statement (take i (Split sqlFile (CHR '';''))))
               (Split sqlFile (CHR '';'') ! i) = Some e \<longrightarrow>
          seedDB env seedDBPath dbPath w =
            Returned (w\<lparr>pending := [], logs := logs w @ [failed_execute_SQL e]\<rparr>))
         \<and> join (CHR '';'') (Split sqlFile (CHR '';'')) = sqlFile
         \<and> (\<forall>f\<in>set (Split sqlFile (CHR '';'')). CHR '';'' \<notin> set f)
         \<and> length (Split sqlFile (CHR '';'')) = Suc (count_list sqlFile (CHR '';''))
         \<and> Split (script @ '';'') (CHR '';'') = Split script (CHR '';'') @ ['''']"
proof -
  let ?cmds = "Split sqlFile (CHR '';'')"
  have all: "seedDB env seedDBPath dbPath w =
           Returned (w\<lparr>durable := durable w @ map statement ?cmds, pending := []\<rparr>)"
    if ok: "\<forall>i<length ?cmds.
              sqlite_exec env (durable w) (map statement (take i ?cmds)) (?cmds ! i) = None"
      and c: "sqlite_commit env (durable w) (map statement ?cmds) = None"
  proof -
    have "\<forall>i<length ?cmds.
        sqlite_exec env (durable (tx_Begin w)) (pending (tx_Begin w) @ map statement (take i ?cmds))
          (?cmds ! i) = None"
      using ok by (simp add: tx_Begin_def)
    from seed_loop_success [OF assms(4) this]
    have loop: "seed_loop env ?cmds True (tx_Begin w) = (True, Next (w\<lparr>pending := map statement ?cmds\<rparr>))"
      by (cases w) (simp add: tx_Begin_def)
    show ?thesis
      using assms(1-3) c loop by (cases w) (simp add: seedDB_def tx_Commit_def)
  qed
  have refused: "seedDB env seedDBPath dbPath w =
            Returned (w\<lparr>pending := [], logs := logs w @ [failed_execute_SQL e]\<rparr>)"
    if i: "i < length ?cmds"
      and before: "\<forall>j<i. sqlite_exec env (durable w) (map statement (take j ?cmds)) (?cmds ! j) = None"
      and e: "sqlite_exec env (durable w) (map statement (take i ?cmds)) (?cmds ! i) = Some e"
  proof -
    have b: "\<forall>j<i. sqlite_exec env (durable (tx_Begin w))
          (pending (tx_Begin w) @ map statement (take j ?cmds)) (?cmds ! j) = None"
      using before by (simp add: tx_Begin_def)
    have f: "sqlite_exec env (durable (tx_Begin w))
          (pending (tx_Begin w) @ map statement (take i ?cmds)) (?cmds ! i) = Some e"
      using e by (simp add: tx_Begin_def)
    from seed_loop_refused [OF assms(4) i b f]
    have loop: "seed_loop env ?cmds True (tx_Begin w) =
        (True, Return (w\<lparr>pending := [], logs := logs w @ [failed_execute_SQL e]\<rparr>))"
      by (cases w) (simp add: tx_Begin_def)
    show ?thesis
      using assms(1-3) loop by (simp add: seedDB_def)
  qed
  show ?thesis
    using all refused join_Split [of "CHR '';''" sqlFile] Split_no_separator [of _ sqlFile "CHR '';''"]
      length_Split [of sqlFile "CHR '';''"] Split_trailing [of script "CHR '';''"]
    by auto
qed

text \<open>
  C8 as the specification states it fails: the fragment after the last semicolon of this
  script is empty, and it is passed to the store and committed like the other two; the
  loop of \<open>seedDB\<close> has no test for an empty statement.
\<close>

theorem seed_executes_empty_fragment:
  "Split seed_script (CHR '';'') =
     [''INSERT INTO client (id, name) VALUES (1, 2)'', ''INSERT INTO feed (id, name) VALUES (1, 3)'', '''']
   \<and> seedDB (willing_env no_rows seed_files) ''/path/to/seed'' ''/path/to/sqlite.db'' w0 =
       Returned \<lparr>durable = [(''INSERT INTO client (id, name) VALUES (1, 2)'', []),
                            (''INSERT INTO feed (id, name) VALUES (1, 3)'', []),
                            ('''', [])],
                 pending = [], logs = [], out = []\<rparr>"
  by code_simp

text \<open>
  Two runs of the amended statement. The script with a semicolon at its end: its three
  fragments, the empty one last, are accepted and committed together. The script with a
  semicolon inside a string literal: the store refuses the first fragment, which ends
  inside the literal, and the second is never executed.
\<close>

theorem seed_executes_every_fragment_witness:
  "length (Split seed_script (CHR '';'')) = 3
   \<and> Split seed_script (CHR '';'') ! 2 = ''''
   \<and> join (CHR '';'') (Split seed_script (CHR '';'')) = seed_script
   \<and> seedDB (willing_env no_rows seed_files) ''/path/to/seed'' ''/path/to/sqlite.db'' w0 =
       Returned (w0\<lparr>durable := durable w0 @ map statement (Split seed_script (CHR '';'')),
                   pending := []\<rparr>)
   \<and> Split literal_script (CHR '';'') = [literal_head, ''b')'']
   \<and> seedDB (refusing_env literal_head ''unrecognized token'') ''/path/to/literal''
         ''/path/to/sqlite.db'' w0 =
       Returned (w0\<lparr>pending := [], logs := logs w0 @ [failed_execute_SQL ''unrecognized token'']\<rparr>)"
proof -
  let ?env = "willing_env no_rows seed_files"
  let ?ref = "refusing_env literal_head ''unrecognized token''"
  have len: "length (Split seed_script (CHR '';'')) = 3" "Split seed_script (CHR '';'') ! 2 = ''''"
    by code_simp+
  have 1: "files ?env ''/path/to/seed'' = Inr seed_script" by code_simp
  have 2: "sql_Open ?env ''sqlite'' ''/path/to/sqlite.db'' = None" by code_simp
  have 3: "sqlite_begin ?env (durable w0) = None" by code_simp
  have 4: "keeps_transaction ?env (Split seed_script (CHR '';''))" by code_simp
  have 5: "(\<forall>i<length (Split seed_script (CHR '';'')).
             sqlite_exec ?env (durable w0) (map statement (take i (Split seed_script (CHR '';''))))
               (Split seed_script (CHR '';'') ! i) = None)
          \<and> sqlite_commit ?env (durable w0) (map statement (Split seed_script (CHR '';''))) = None"
    by (simp add: willing_env_def)
  note every = seed_executes_every_fragment [OF 1 2 3 4]
  have a: "seedDB ?env ''/path/to/seed'' ''/path/to/sqlite.db'' w0 =
       Returned (w0\<lparr>durable := durable w0 @ map statement (Split seed_script (CHR '';'')),
                   pending := []\<rparr>)"
    using every [THEN conjunct1, THEN mp, OF 5] .
  have j: "join (CHR '';'') (Split seed_script (CHR '';'')) = seed_script"
    using every [THEN conjunct2, THEN conjunct2, THEN conjunct1] .
  have split: "Split literal_script (CHR '';'') = [literal_head, ''b')'']"
    by code_simp
  have 6: "files ?ref ''/path/to/literal'' = Inr literal_script" by code_simp
  have 7: "sql_Open ?ref ''sqlite'' ''/path/to/sqlite.db'' = None" by code_simp
  have 8: "sqlite_begin ?ref (durable w0) = None" by code_simp
  have 9: "keeps_transaction ?ref (Split literal_script (CHR '';''))" by code_simp
  have 10: "0 < length (Split literal_script (CHR '';''))
          \<and> (\<forall>j<0. sqlite_exec ?ref (durable w0) (map statement (take j (Split literal_script (CHR '';''))))
                       (Split literal_script (CHR '';'') ! j) = None)
          \<and> sqlite_exec ?ref (durable w0) (map statement (take 0 (Split literal_script (CHR '';''))))
               (Split literal_script (CHR '';'') ! 0) = Some ''unrecognized token''"
    by (simp add: split refusing_env_def)
  have b: "seedDB ?ref ''/path/to/literal'' ''/path/to/sqlite.db'' w0 =
       Returned (w0\<lparr>pending := [], logs := logs w0 @ [failed_execute_SQL ''unrecognized token'']\<rparr>)"
    using seed_executes_every_fragment [OF 6 7 8 9, THEN conjunct2, THEN conjunct1, THEN mp, OF 10] .
  show ?thesis
    using len a j split b by (simp only: simp_thms)
qed

subsection \<open>The tables of a run\<close>

text \<open>
  A reset that returns without a new log line has committed: for every table of its
  list, in the list's order, the \<open>DELETE\<close> and, where it succeeded, the sequence reset.
\<close>

lemma resetDB_Returned_clean:
  assumes "resetDB env dbPath w = Returned w'" and "logs w' = logs w"
  shows "\<exists>kept. w' = w\<lparr>durable := durable w @ reset_statements kept reset_tables, pending := []\<rparr>"
proof -
  have d: "distinct reset_tables" by code_simp
  show ?thesis
  proof (cases "reset_loop env reset_tables (tx_Begin w)")
    case (Abort w1)
    then show ?thesis by (simp add: reset_loop_not_Abort)
  next
    case (Return w1)
    from reset_loop_Return [OF this] have "logs w1 \<noteq> logs w" by (simp add: tx_Begin_def)
    moreover have "w1 = w'"
      using assms(1) Return by (simp add: resetDB_def split: option.splits)
    ultimately show ?thesis using assms(2) by simp
  next
    case (Next w1)
    from reset_loop_Next [OF d this] obtain kept where
      w1: "w1 = w\<lparr>pending := reset_statements kept reset_tables\<rparr>"
      by (cases w) (auto simp: tx_Begin_def)
    have "w' = tx_Commit w1"
      using assms(1) Next by (simp add: resetDB_def split: option.splits)
    then have "w' = w\<lparr>durable := durable w @ reset_statements kept reset_tables, pending := []\<rparr>"
      unfolding w1 by (cases w) (simp add: tx_Commit_def)
    then show ?thesis by blast
  qed
qed

lemma copy_rows_Abort_out: "copy_rows table stmt rs w = Abort w' \<Longrightarrow> out w' = out w"
proof (induction rs arbitrary: w)
  case Nil
  then show ?case by simp
next
  case (Cons r rs)
  have step: "out w' = out w1" if "copy_rows table stmt rs w1 = Abort w'" for w1
    using Cons.IH [OF that] .
  from Cons.prems show ?case
    by (auto simp: Let_def logf_def tx_Exec_def tx_Rollback_def tx_Begin_def
        split: sum.splits option.splits if_splits dest!: step)
qed

lemma migrate_table_Abort_out: "migrate_table env table w = Abort w' \<Longrightarrow> out w' = out w"
  by (auto simp: migrate_table_def Let_def logf_def tx_Begin_def
      split: sum.splits option.splits flow.splits dest!: copy_rows_Abort_out copy_rows_Next)

lemma table_loop_Abort:
  "table_loop env tables w = Abort w' \<Longrightarrow>
     \<exists>k<length tables. out w' = out w @ map MigratedTable (take k tables)"
proof (induction tables arbitrary: w)
  case Nil
  then show ?case by simp
next
  case (Cons t ts)
  show ?case
  proof (cases "migrate_table env t w")
    case (Abort w1)
    with Cons.prems have "w1 = w'" by simp
    with migrate_table_Abort_out [OF Abort] have "out w' = out w @ map MigratedTable (take 0 (t # ts))"
      by simp
    then show ?thesis by (intro exI [of _ 0]) simp
  next
    case (Return w1)
    then show ?thesis by (simp add: migrate_table_not_Return)
  next
    case (Next w1)
    with Cons.prems have "table_loop env ts w1 = Abort w'" by simp
    from Cons.IH [OF this] obtain k where k: "k < length ts"
      and o: "out w' = out w1 @ map MigratedTable (take k ts)" by blast
    have "out w' = out w @ map MigratedTable (take (Suc k) (t # ts))"
      using o migrate_table_Next [OF Next] by simp
    then show ?thesis using k by (intro exI [of _ "Suc k"]) simp
  qed
qed

lemma migrate_Fatal:
  "migrate env a b w = Fatal w' \<Longrightarrow>
     \<exists>k<length migrate_tables. out w' = out w @ map MigratedTable (take k migrate_tables)"
proof -
  assume f: "migrate env a b w = Fatal w'"
  have n: "0 < length migrate_tables" by (simp add: migrate_tables_def)
  show ?thesis
  proof (cases "table_loop env migrate_tables w = Abort w'")
    case True
    then show ?thesis by (rule table_loop_Abort)
  next
    case False
    with f have "out w' = out w @ map MigratedTable (take 0 migrate_tables)"
      by (auto simp: migrate_def logf_def split: option.splits flow.splits)
    with n show ?thesis by blast
  qed
qed

text \<open>
  C9. The tables of \<open>migrate\<close> are the thirteen names of the specification in its
  order, and the tables of \<open>resetDB\<close> are the same names and \<open>feed_cache\<close>, each once.
  A migration that completes has reported exactly these thirteen tables, in this order,
  before its final line, and one that aborts has reported the tables before the one it
  aborted in, in the same order; a reset that commits has executed a \<open>DELETE\<close> for exactly the
  fourteen tables (and the sequence resets that succeeded), nothing else.
\<close>

theorem catalog_tables:
  "migrate_tables =
     [''users'', ''indexer'', ''irc_network'', ''irc_channel'', ''client'', ''filter'', ''action'',
      ''notification'', ''filter_indexer'', ''release'', ''release_action_status'', ''feed'',
      ''api_key'']
   \<and> set reset_tables = set migrate_tables \<union> {''feed_cache''}
   \<and> distinct migrate_tables \<and> distinct reset_tables
   \<and> (migrate env sqliteDBPath postgresDBURL w = Returned w' \<longrightarrow>
        out w' = out w @ map MigratedTable migrate_tables @ [MigrationCompleted])
   \<and> (migrate env sqliteDBPath postgresDBURL w = Fatal w' \<longrightarrow>
        (\<exists>k<length migrate_tables. out w' = out w @ map MigratedTable (take k migrate_tables)))
   \<and> (resetDB env dbPath w = Returned w' \<and> logs w' = logs w \<longrightarrow>
        (\<exists>kept. w' = w\<lparr>durable := durable w @ reset_statements kept reset_tables,
                         pending := []\<rparr>))"
proof -
  have 1: "migrate_tables =
     [''users'', ''indexer'', ''irc_network'', ''irc_channel'', ''client'', ''filter'', ''action'',
      ''notification'', ''filter_indexer'', ''release'', ''release_action_status'', ''feed'',
      ''api_key'']"
    by (simp add: migrate_tables_def)
  have 2: "set reset_tables = set migrate_tables \<union> {''feed_cache''}"
    by code_simp
  have 3: "distinct migrate_tables" "distinct reset_tables"
    by code_simp+
  show ?thesis
    using 1 2 3 migrate_Returned [of env sqliteDBPath postgresDBURL w w']
      migrate_Fatal [of env sqliteDBPath postgresDBURL w w']
      resetDB_Returned_clean [of env dbPath w w']
    by blast
qed

theorem catalog_tables_witness:
  "migrate (willing_env no_rows seed_files) ''/config/autobrr.db'' ''postgres://localhost/autobrr'' w0 =
     Returned \<lparr>durable = [], pending = [], logs = [],
               out = map MigratedTable migrate_tables @ [MigrationCompleted]\<rparr>
   \<and> out \<lparr>durable = [], pending = [], logs = [],
            out = map MigratedTable migrate_tables @ [MigrationCompleted]\<rparr> =
       out w0 @ map MigratedTable migrate_tables @ [MigrationCompleted]
   \<and> migrate (willing_env no_release_source no_files) ''/config/autobrr.db''
         ''postgres://localhost/autobrr'' w0 =
     Fatal \<lparr>durable = [], pending = [],
            logs = [FailedQueryTable ''release'' ''no such table: release''],
            out = map MigratedTable (take 9 migrate_tables)\<rparr>
   \<and> (\<exists>k<length migrate_tables.
         out \<lparr>durable = [], pending = [],
              logs = [FailedQueryTable ''release'' ''no such table: release''],
              out = map MigratedTable (take 9 migrate_tables)\<rparr> =
         out w0 @ map MigratedTable (take k migrate_tables))
   \<and> resetDB no_sequence_env ''/path/to/sqlite.db'' w0 =
     Returned \<lparr>durable = map (\<lambda>table. statement (delete_text table)) reset_tables,
               pending = [], logs = [], out = []\<rparr>
   \<and> (\<exists>kept. \<lparr>durable = map (\<lambda>table. statement (delete_text table)) reset_tables,
               pending = [], logs = [], out = []\<rparr> =
        w0\<lparr>durable := durable w0 @ reset_statements kept reset_tables, pending := []\<rparr>)"
proof -
  let ?m = "\<lparr>durable = [], pending = [], logs = [],
               out = map MigratedTable migrate_tables @ [MigrationCompleted]\<rparr>"
  let ?r = "\<lparr>durable = map (\<lambda>table. statement (delete_text table)) reset_tables,
               pending = [], logs = [], out = []\<rparr>"
  have m: "migrate (willing_env no_rows seed_files) ''/config/autobrr.db'' ''postgres://localhost/autobrr'' w0 =
     Returned ?m"
    by code_simp
  have r: "resetDB no_sequence_env ''/path/to/sqlite.db'' w0 = Returned ?r \<and> logs ?r = logs w0"
    by code_simp
  note reset = catalog_tables
    [where env = no_sequence_env and dbPath = "''/path/to/sqlite.db''" and w = w0 and w' = ?r,
     THEN conjunct2, THEN conjunct2, THEN conjunct2, THEN conjunct2, THEN conjunct2,
     THEN conjunct2, THEN mp, OF r]
  let ?f = "\<lparr>durable = [], pending = [],
            logs = [FailedQueryTable ''release'' ''no such table: release''],
            out = map MigratedTable (take 9 migrate_tables)\<rparr>"
  have f: "migrate (willing_env no_release_source no_files) ''/config/autobrr.db''
         ''postgres://localhost/autobrr'' w0 = Fatal ?f"
    by code_simp
  note abort = catalog_tables
    [where env = "willing_env no_release_source no_files" and sqliteDBPath = "''/config/autobrr.db''"
       and postgresDBURL = "''postgres://localhost/autobrr''" and w = w0 and w' = ?f,
     THEN conjunct2, THEN conjunct2, THEN conjunct2, THEN conjunct2, THEN conjunct2,
     THEN conjunct1, THEN mp, OF f]
  note copy = catalog_tables
    [where env = "willing_env no_rows seed_files" and sqliteDBPath = "''/config/autobrr.db''"
       and postgresDBURL = "''postgres://localhost/autobrr''" and w = w0 and w' = ?m,
     THEN conjunct2, THEN conjunct2, THEN conjunct2, THEN conjunct2, THEN conjunct1, THEN mp, OF m]
  show ?thesis
    using m copy f abort r [THEN conjunct1] reset by (simp only: simp_thms)
qed

subsection \<open>The exit status of a failed reset\<close>

text \<open>
  C4, the code at a failing input. The driver \<open>sqlite\<close> is registered and the store
  refuses \<open>DELETE FROM filter\<close> with \<open>database is locked\<close>. \<open>resetDB\<close> logs the error,
  rolls back (nothing it deleted is durable) and returns to \<open>main\<close>, which runs the seed
  on the store that was not cleared, prints that the reset completed and exits with
  status 0. The same happens when the sequence reset of a table fails with an error
  other than \<open>no such table\<close>. The tolerated error is tolerated: in a store without
  \<open>sqlite_sequence\<close> the reset commits the fourteen \<open>DELETE\<close> statements.
\<close>

theorem reset_failure_exits_zero:
  "resetDB (refusing_env (delete_text ''filter'') ''database is locked'') ''/path/to/sqlite.db'' w0 =
     Returned \<lparr>durable = [], pending = [],
               logs = [failed_delete_rows ''filter'' ''database is locked''], out = []\<rparr>
   \<and> main (refusing_env (delete_text ''filter'') ''database is locked'')
        [''db:reset'', ''/path/to/seed'', ''/path/to/sqlite.db''] w0 =
     Exited 0 \<lparr>durable = [(''INSERT INTO client (id, name) VALUES (1, 2)'', []),
                          (''INSERT INTO feed (id, name) VALUES (1, 3)'', []),
                          ('''', [])],
               pending = [],
               logs = [failed_delete_rows ''filter'' ''database is locked''],
               out = [ResetCompleted]\<rparr>
   \<and> main (refusing_env (sequence_text ''filter'') ''database is locked'')
        [''db:reset'', ''/path/to/seed'', ''/path/to/sqlite.db''] w0 =
     Exited 0 \<lparr>durable = [(''INSERT INTO client (id, name) VALUES (1, 2)'', []),
                          (''INSERT INTO feed (id, name) VALUES (1, 3)'', []),
                          ('''', [])],
               pending = [],
               logs = [failed_reset_sequence ''filter'' ''database is locked''],
               out = [ResetCompleted]\<rparr>
   \<and> resetDB no_sequence_env ''/path/to/sqlite.db'' w0 =
     Returned \<lparr>durable = map (\<lambda>table. statement (delete_text table)) reset_tables,
               pending = [], logs = [], out = []\<rparr>"
  by code_simp

subsection \<open>The arguments of db:seed\<close>

text \<open>
  C10, the code at a failing input. \<open>main\<close> passes the first argument after
  \<open>db:seed\<close> to \<open>seedDB\<close> as the path of the SQL file and the second as the path of the
  database, and runs nothing else. With the arguments in the order of the usage text
  (\<open>db:seed /path/to/sqlite.db /path/to/seed\<close>) the program tries to read the database
  path as the script; it seeds the store only when the script comes first.
\<close>

theorem seed_arguments_swapped:
  "main env [''db:seed'', first, second] w =
     (if first = [] then Exited 1 (printf Usage (printf MissingSeedPath w))
      else if second = [] then Exited 1 (printf Usage (printf MissingDatabasePath w))
      else (case seedDB env first second w of
              Fatal w' \<Rightarrow> Exited 1 w'
            | Returned w' \<Rightarrow> Exited 0 (printf SeedingCompleted w')))
   \<and> main (willing_env no_rows seed_files) [''db:seed'', ''/path/to/sqlite.db'', ''/path/to/seed''] w0 =
       Exited 1 \<lparr>durable = [], pending = [],
                 logs = [failed_read_SQL_file (no_such_file ''/path/to/sqlite.db'')], out = []\<rparr>
   \<and> main (willing_env no_rows seed_files) [''db:seed'', ''/path/to/seed'', ''/path/to/sqlite.db''] w0 =
       Exited 0 \<lparr>durable = [(''INSERT INTO client (id, name) VALUES (1, 2)'', []),
                            (''INSERT INTO feed (id, name) VALUES (1, 3)'', []),
                            ('''', [])],
                 pending = [], logs = [], out = [SeedingCompleted]\<rparr>"
proof -
  have 1: "main env [''db:seed'', first, second] w =
     (if first = [] then Exited 1 (printf Usage (printf MissingSeedPath w))
      else if second = [] then Exited 1 (printf Usage (printf MissingDatabasePath w))
      else (case seedDB env first second w of
              Fatal w' \<Rightarrow> Exited 1 w'
            | Returned w' \<Rightarrow> Exited 0 (printf SeedingCompleted w')))"
    by (simp add: main_def Arg_def run_def Let_def)
  have 2: "main (willing_env no_rows seed_files) [''db:seed'', ''/path/to/sqlite.db'', ''/path/to/seed''] w0 =
       Exited 1 \<lparr>durable = [], pending = [],
                 logs = [failed_read_SQL_file (no_such_file ''/path/to/sqlite.db'')], out = []\<rparr>"
    by code_simp
  have 3: "main (willing_env no_rows seed_files) [''db:seed'', ''/path/to/seed'', ''/path/to/sqlite.db''] w0 =
       Exited 0 \<lparr>durable = [(''INSERT INTO client (id, name) VALUES (1, 2)'', []),
                            (''INSERT INTO feed (id, name) VALUES (1, 3)'', []),
                            ('''', [])],
                 pending = [], logs = [], out = [SeedingCompleted]\<rparr>"
    by code_simp
  from 1 2 3 show ?thesis by (simp only: simp_thms)
qed

end
